theory Spec2Isabelle
  imports Complex_Main "HOL-Library.Multiset"
begin

section \<open>Documents, fields and the store\<close>

text \<open>
  A field of a stored document is absent, holds an explicit null, or holds a value.
  The query operators and the JavaScript truthiness tests used by the controllers
  tell the three apart in different ways, so the model keeps all three.
  Timestamps are epoch milliseconds, ids are natural numbers.
\<close>

datatype 'a field = Missing | Null | Val 'a

text \<open>Query operators of the store, as the filters of the source use them.\<close>

definition q_null :: "'a field \<Rightarrow> bool" where
  \<comment> \<open>\<open>{ f: null }\<close> matches an explicit null and an absent field\<close>
  "q_null f = (case f of Val v \<Rightarrow> False | _ \<Rightarrow> True)"

definition q_eq :: "'a \<Rightarrow> 'a field \<Rightarrow> bool" where
  \<comment> \<open>\<open>{ f: v }\<close>\<close>
  "q_eq v f = (case f of Val w \<Rightarrow> w = v | _ \<Rightarrow> False)"

definition q_in :: "'a list \<Rightarrow> 'a field \<Rightarrow> bool" where
  \<comment> \<open>\<open>{ f: { $in: [...] } }\<close>\<close>
  "q_in vs f = (case f of Val w \<Rightarrow> w \<in> set vs | _ \<Rightarrow> False)"

definition q_exists :: "bool \<Rightarrow> 'a field \<Rightarrow> bool" where
  \<comment> \<open>\<open>{ f: { $exists: b } }\<close>: a field holding null exists\<close>
  "q_exists b f = (case f of Missing \<Rightarrow> \<not> b | _ \<Rightarrow> b)"

definition q_lte :: "int \<Rightarrow> int field \<Rightarrow> bool" where
  \<comment> \<open>\<open>{ f: { $lte: t } }\<close> on a date: only a date value compares\<close>
  "q_lte t f = (case f of Val w \<Rightarrow> w \<le> t | _ \<Rightarrow> False)"

text \<open>JavaScript truthiness of what a document field reads as.\<close>

definition truthy :: "'a field \<Rightarrow> bool" where
  \<comment> \<open>object ids and dates: any value is truthy, undefined and null are not\<close>
  "truthy f = (case f of Val v \<Rightarrow> True | _ \<Rightarrow> False)"

definition truthy_str :: "string field \<Rightarrow> bool" where
  \<comment> \<open>the empty string is falsy\<close>
  "truthy_str f = (case f of Val s \<Rightarrow> s \<noteq> [] | _ \<Rightarrow> False)"

definition truthy_num :: "real field \<Rightarrow> bool" where
  \<comment> \<open>the number 0 is falsy\<close>
  "truthy_num f = (case f of Val x \<Rightarrow> x \<noteq> 0 | _ \<Rightarrow> False)"

definition or_else :: "'a field \<Rightarrow> 'a \<Rightarrow> 'a" where
  \<comment> \<open>\<open>f || d\<close> on an object id or a date\<close>
  "or_else f d = (case f of Val v \<Rightarrow> v | _ \<Rightarrow> d)"

record historyEntry =
  fromRole :: "string field"
  toRole :: string
  escalatedBy :: nat
  reason :: string
  escalatedAt :: int

record resolvedInfo =
  photo :: "(string \<times> string) option"
  rlocation :: "(real \<times> real) option"
  resolvedBy :: "nat option"

record issue =
  iid :: nat
  title :: string
  category :: string
  priority :: "string field"
  status :: string
  assignedRole :: "string field"
  assignedTo :: "nat field"
  assignedBy :: "nat field"
  assignedAt :: "int field"
  acceptedBy :: "nat field"
  acceptedAt :: "int field"
  escalationDeadline :: "int field"
  escalationHistory :: "historyEntry list"
  createdAt :: "int field"
  reportedBy :: "nat field"
  pointsAwarded :: bool
  latitude :: "real field"
  longitude :: "real field"
  resolved :: "resolvedInfo option"
  resolvedAt :: "int field"
  actualResolutionTime :: "int field"

record user =
  uid :: nat
  role :: string
  isActive :: bool
  departments :: "string list"
  department :: "string field"
  loginCount :: nat
  lastLogin :: "int option"
  points :: "int field"

record db =
  issues :: "issue list"
  users :: "user list"

definition findById :: "issue list \<Rightarrow> nat \<Rightarrow> issue option" where
  "findById is' k = find (\<lambda>i. iid i = k) is'"

definition findUserById :: "user list \<Rightarrow> nat \<Rightarrow> user option" where
  "findUserById us k = find (\<lambda>u. uid u = k) us"

text \<open>
  \<open>updateOne\<close>: the first document matching the filter is updated, in one step;
  the result carries \<open>matchedCount\<close>.
\<close>

fun updateOne :: "(issue \<Rightarrow> bool) \<Rightarrow> (issue \<Rightarrow> issue) \<Rightarrow> issue list \<Rightarrow> nat \<times> issue list" where
  "updateOne q u [] = (0, [])"
| "updateOne q u (i # rest) =
     (if q i then (1, u i # rest)
      else (case updateOne q u rest of (n, rest') \<Rightarrow> (n, i # rest')))"

section \<open>employeeController.acceptIssue\<close>

text \<open>
  The handler reads the issue, runs one conditional \<open>updateOne\<close> and, when nothing
  matched, reads the issue again to name the reason. The model runs these steps
  without another writer in between; a rejecting store (the handler's 500 answer) is
  not modelled.
\<close>

definition employeeRoles :: "string list" where
  "employeeRoles = [''field-staff'', ''supervisor'', ''commissioner'', ''employee'']"

datatype accept_error =
    OnlyEmployees
  | IssueNotFound
  | AssignedToAnother
  | AlreadyAccepted
  | StatusNotAcceptable string
  | UnableToAccept

fun accept_http :: "accept_error \<Rightarrow> nat" where
  "accept_http OnlyEmployees = 403"
| "accept_http IssueNotFound = 404"
| "accept_http AssignedToAnother = 403"
| "accept_http AlreadyAccepted = 400"
| "accept_http (StatusNotAcceptable s) = 400"
| "accept_http UnableToAccept = 400"

definition accept_filter :: "nat \<Rightarrow> user \<Rightarrow> issue \<Rightarrow> bool" where
  "accept_filter k u i =
     (iid i = k \<and>
      q_in [''reported'', ''assigned''] (Val (status i)) \<and>
      q_null (acceptedBy i) \<and>
      (q_null (assignedTo i) \<or> q_eq (uid u) (assignedTo i)))"

definition accept_set :: "issue \<Rightarrow> user \<Rightarrow> int \<Rightarrow> issue \<Rightarrow> issue" where
  \<comment> \<open>the first argument is the document read before the update: \<open>assignedBy\<close> and
      \<open>assignedAt\<close> are computed from it\<close>
  "accept_set read u now i =
     i\<lparr>status := ''in-progress'',
       acceptedBy := Val (uid u),
       acceptedAt := Val now,
       assignedTo := Val (uid u),
       assignedBy := Val (or_else (assignedBy read) (uid u)),
       assignedAt := Val (or_else (assignedAt read) now)\<rparr>"

definition acceptIssue :: "db \<Rightarrow> nat \<Rightarrow> user \<Rightarrow> int \<Rightarrow> (accept_error + issue option) \<times> db" where
  "acceptIssue d k u now =
     (if role u \<notin> set employeeRoles then (Inl OnlyEmployees, d)
      else case findById (issues d) k of
        None \<Rightarrow> (Inl IssueNotFound, d)
      | Some issue \<Rightarrow>
          if truthy (assignedTo issue) \<and> assignedTo issue \<noteq> Val (uid u)
          then (Inl AssignedToAnother, d)
          else (case updateOne (accept_filter k u) (accept_set issue u now) (issues d) of
            (matchedCount, is') \<Rightarrow>
              let d' = d\<lparr>issues := is'\<rparr> in
              if matchedCount = 0 then
                (case findById (issues d') k of
                   None \<Rightarrow> (Inl IssueNotFound, d')
                 | Some currentIssue \<Rightarrow>
                     if truthy (acceptedBy currentIssue) then (Inl AlreadyAccepted, d')
                     else if status currentIssue \<notin> set [''reported'', ''assigned'']
                     then (Inl (StatusNotAcceptable (status currentIssue)), d')
                     else if truthy (assignedTo currentIssue)
                             \<and> assignedTo currentIssue \<noteq> Val (uid u)
                     then (Inl AssignedToAnother, d')
                     else (Inl UnableToAccept, d'))
              else (Inr (findById (issues d') k), d')))"

text \<open>The condition of the claim, in the claim's words.\<close>

definition acceptable :: "issue \<Rightarrow> user \<Rightarrow> bool" where
  "acceptable i u =
     ((status i = ''reported'' \<or> status i = ''assigned'') \<and>
      \<not> truthy (acceptedBy i) \<and>
      (\<not> truthy (assignedTo i) \<or> assignedTo i = Val (uid u)))"

definition accepted :: "issue \<Rightarrow> user \<Rightarrow> int \<Rightarrow> issue" where
  "accepted i u now =
     i\<lparr>status := ''in-progress'',
       acceptedBy := Val (uid u),
       acceptedAt := Val now,
       assignedTo := Val (uid u),
       assignedBy := (case assignedBy i of Val b \<Rightarrow> Val b | _ \<Rightarrow> Val (uid u)),
       assignedAt := (case assignedAt i of Val t \<Rightarrow> Val t | _ \<Rightarrow> Val now)\<rparr>"

text \<open>Replacing the document with a given id, all others untouched.\<close>

definition replaceById :: "issue \<Rightarrow> issue list \<Rightarrow> issue list" where
  "replaceById i' is' = map (\<lambda>i. if iid i = iid i' then i' else i) is'"

lemma updateOne_none:
  "\<forall>i \<in> set xs. \<not> q i \<Longrightarrow> updateOne q u xs = (0, xs)"
  by (induction xs) auto

lemma findById_mem:
  "findById xs k = Some i \<Longrightarrow> i \<in> set xs \<and> iid i = k"
  unfolding findById_def by (induction xs) (auto split: if_splits)

lemma updateOne_hit:
  "distinct (map iid xs) \<Longrightarrow> findById xs k = Some i \<Longrightarrow> q i \<Longrightarrow> (\<And>j. q j \<Longrightarrow> iid j = k)
   \<Longrightarrow> iid (u i) = k
   \<Longrightarrow> updateOne q u xs = (1, replaceById (u i) xs)"
proof (induction xs)
  case Nil
  then show ?case by (simp add: findById_def)
next
  case (Cons x xs)
  show ?case
  proof (cases "iid x = k")
    case True
    with Cons.prems have xi: "x = i" by (simp add: findById_def)
    from Cons.prems(1) have "iid x \<notin> iid ` set xs" by simp
    with True have "\<forall>j \<in> set xs. iid j \<noteq> k" by (metis imageI)
    then have "map (\<lambda>j. if iid j = k then u i else j) xs = xs"
      by (induction xs) auto
    with Cons.prems xi True show ?thesis by (simp add: replaceById_def)
  next
    case False
    with Cons.prems have nq: "\<not> q x" by auto
    from Cons.prems False have f: "findById xs k = Some i" by (simp add: findById_def)
    from Cons.prems have d: "distinct (map iid xs)" by simp
    have "updateOne q u xs = (1, replaceById (u i) xs)"
      using Cons.IH [OF d f Cons.prems(3) Cons.prems(4) Cons.prems(5)] by simp
    with nq False Cons.prems(5) show ?thesis by (simp add: replaceById_def)
  qed
qed

lemma findById_replace:
  "findById xs k = Some i \<Longrightarrow> iid i' = k \<Longrightarrow> findById (replaceById i' xs) k = Some i'"
  unfolding findById_def replaceById_def by (induction xs) (auto split: if_splits)

lemma accept_filter_iff:
  "accept_filter k u i = (iid i = k \<and> acceptable i u)"
  by (auto simp: accept_filter_def acceptable_def q_in_def q_null_def q_eq_def truthy_def
      split: field.splits)

lemma accept_set_accepted: "accept_set i u now i = accepted i u now"
  by (simp add: accept_set_def accepted_def or_else_def split: field.splits)

lemma accept_filter_miss:
  assumes "distinct (map iid xs)" "findById xs k = Some i" "\<not> acceptable i u"
  shows "\<forall>j \<in> set xs. \<not> accept_filter k u j"
proof
  fix j assume j: "j \<in> set xs"
  show "\<not> accept_filter k u j"
  proof
    assume a: "accept_filter k u j"
    then have "iid j = k" "acceptable j u" by (simp_all add: accept_filter_iff)
    moreover from assms(2) have "i \<in> set xs" "iid i = k" by (simp_all add: findById_mem)
    ultimately have "j = i" using assms(1) j by (metis distinct_map inj_onD)
    with \<open>acceptable j u\<close> assms(3) show False by simp
  qed
qed

text \<open>
  C1. For a caller whose role is in the employee role set and an issue of the store
  (ids are unique), accept succeeds exactly when the status is reported or assigned,
  acceptedBy is unset and assignedTo is unset or the caller. On success the stored
  issue becomes in-progress, accepted by and assigned to the caller at the current
  time, an existing assignedBy and assignedAt being kept, and no other document
  changes. Otherwise the update matches no document, the store is unchanged and the
  caller gets the error naming the reason: assigned to another employee (403),
  already accepted (400), or a status that cannot be accepted (400).
\<close>

theorem acceptIssue_exclusive:
  assumes emp: "role u \<in> set employeeRoles"
    and uniq: "distinct (map iid (issues d))"
    and ex: "findById (issues d) k = Some i"
  shows "(acceptable i u \<longrightarrow>
            acceptIssue d k u now =
              (Inr (Some (accepted i u now)),
               d\<lparr>issues := replaceById (accepted i u now) (issues d)\<rparr>)
            \<and> updateOne (accept_filter k u) (accept_set i u now) (issues d)
                = (1, replaceById (accepted i u now) (issues d)))
       \<and> (\<not> acceptable i u \<longrightarrow>
            fst (updateOne (accept_filter k u) (accept_set i u now) (issues d)) = 0
            \<and> snd (acceptIssue d k u now) = d
            \<and> fst (acceptIssue d k u now) =
                (if truthy (assignedTo i) \<and> assignedTo i \<noteq> Val (uid u) then Inl AssignedToAnother
                 else if truthy (acceptedBy i) then Inl AlreadyAccepted
                 else Inl (StatusNotAcceptable (status i))))"
proof (intro conjI impI)
  assume a: "acceptable i u"
  from ex have ik: "iid i = k" by (simp add: findById_mem)
  have q: "accept_filter k u i" using a ik by (simp add: accept_filter_iff)
  have idk: "iid (accept_set i u now i) = k" using ik by (simp add: accept_set_def)
  have qk: "\<And>j. accept_filter k u j \<Longrightarrow> iid j = k" by (simp add: accept_filter_iff)
  have upd: "updateOne (accept_filter k u) (accept_set i u now) (issues d)
               = (1, replaceById (accepted i u now) (issues d))"
    using updateOne_hit [of "issues d" k i "accept_filter k u" "accept_set i u now", OF uniq ex q qk idk]
    by (simp add: accept_set_accepted)
  show "updateOne (accept_filter k u) (accept_set i u now) (issues d)
               = (1, replaceById (accepted i u now) (issues d))" by (rule upd)
  have na: "\<not> (truthy (assignedTo i) \<and> assignedTo i \<noteq> Val (uid u))"
    using a by (auto simp: acceptable_def)
  have fr: "findById (replaceById (accepted i u now) (issues d)) k = Some (accepted i u now)"
    using findById_replace [OF ex] ik by (simp add: accepted_def)
  show "acceptIssue d k u now =
          (Inr (Some (accepted i u now)),
           d\<lparr>issues := replaceById (accepted i u now) (issues d)\<rparr>)"
    using emp ex na upd fr by (simp add: acceptIssue_def Let_def)
next
  assume n: "\<not> acceptable i u"
  have miss: "updateOne (accept_filter k u) (accept_set i u now) (issues d) = (0, issues d)"
    using accept_filter_miss [OF uniq ex n] by (rule updateOne_none)
  then show "fst (updateOne (accept_filter k u) (accept_set i u now) (issues d)) = 0" by simp
  show "snd (acceptIssue d k u now) = d"
    using emp ex miss by (simp add: acceptIssue_def Let_def)
  have st: "\<not> truthy (acceptedBy i) \<Longrightarrow> \<not> (truthy (assignedTo i) \<and> assignedTo i \<noteq> Val (uid u))
            \<Longrightarrow> status i \<notin> set [''reported'', ''assigned'']"
    using n by (auto simp: acceptable_def)
  show "fst (acceptIssue d k u now) =
          (if truthy (assignedTo i) \<and> assignedTo i \<noteq> Val (uid u) then Inl AssignedToAnother
           else if truthy (acceptedBy i) then Inl AlreadyAccepted
           else Inl (StatusNotAcceptable (status i)))"
    using emp ex miss st by (auto simp: acceptIssue_def Let_def)
qed

section \<open>employeeController.resolveIssue\<close>

text \<open>
  A value of the request body: absent, a number (a JSON body) or a string (a form
  upload). \<open>parseFloat\<close> of a string is a parameter of the model; on a number it
  is the number. Numbers are reals here: NaN and rounding are not modelled.
\<close>

datatype bodyval = Absent | Num real | Str string

definition truthy_body :: "bodyval \<Rightarrow> bool" where
  "truthy_body v = (case v of Absent \<Rightarrow> False | Num x \<Rightarrow> x \<noteq> 0 | Str s \<Rightarrow> s \<noteq> [])"

record request =
  req_latitude :: bodyval
  req_longitude :: bodyval
  req_file :: "(string \<times> string) option"

text \<open>
  What lies outside the controller: the string parser, and whether the reporter's
  lookup or save, the save of the issue and the resolution notice reject (with
  which message).
\<close>

record world =
  parseFloatStr :: "string \<Rightarrow> real"
  pointsError :: "string option"
  saveError :: "string option"
  notifyError :: "string option"

definition parseFloat :: "world \<Rightarrow> bodyval \<Rightarrow> real" where
  "parseFloat w v = (case v of Num x \<Rightarrow> x | Str s \<Rightarrow> parseFloatStr w s | Absent \<Rightarrow> 0)"

datatype resolve_error =
    ResolveNotFound
  | OnlyAcceptor
  | MustBeAccepted
  | TooFar int
  | PointsFailed string
  | NotInProgress string
  | ServerError string

fun resolve_http :: "resolve_error \<Rightarrow> nat" where
  "resolve_http ResolveNotFound = 404"
| "resolve_http OnlyAcceptor = 403"
| "resolve_http MustBeAccepted = 400"
| "resolve_http (TooFar m) = 400"
| "resolve_http (PointsFailed e) = 500"
| "resolve_http (NotInProgress s) = 400"
| "resolve_http (ServerError e) = 500"

definition atan2 :: "real \<Rightarrow> real \<Rightarrow> real" where
  \<comment> \<open>\<open>Math.atan2(y, x)\<close>\<close>
  "atan2 y x =
     (if x > 0 then arctan (y / x)
      else if x < 0 then (if y \<ge> 0 then arctan (y / x) + pi else arctan (y / x) - pi)
      else if y > 0 then pi / 2
      else if y < 0 then - pi / 2
      else 0)"

definition allowedDistanceMeters :: real where
  "allowedDistanceMeters = 100"

definition haversine :: "real \<Rightarrow> real \<Rightarrow> real \<Rightarrow> real \<Rightarrow> real" where
  "haversine originalLat originalLng lat lng =
     (let R = 6371000;
          dLat = (lat - originalLat) * pi / 180;
          dLng = (lng - originalLng) * pi / 180;
          a = sin (dLat / 2) * sin (dLat / 2) +
              cos (originalLat * pi / 180) * cos (lat * pi / 180) *
              sin (dLng / 2) * sin (dLng / 2);
          c = 2 * atan2 (sqrt a) (sqrt (1 - a))
      in R * c)"

definition emptyResolved :: resolvedInfo where
  "emptyResolved = \<lparr>photo = None, rlocation = None, resolvedBy = None\<rparr>"

definition resolved_or_empty :: "issue \<Rightarrow> resolvedInfo" where
  \<comment> \<open>\<open>issue.resolved || {}\<close>\<close>
  "resolved_or_empty i = (case resolved i of Some r \<Rightarrow> r | None \<Rightarrow> emptyResolved)"

definition attachPhoto :: "request \<Rightarrow> issue \<Rightarrow> issue" where
  "attachPhoto req i =
     (case req_file req of
        None \<Rightarrow> i
      | Some ph \<Rightarrow> i\<lparr>resolved := Some ((resolved_or_empty i)\<lparr>photo := Some ph\<rparr>)\<rparr>)"

definition checkLocation :: "world \<Rightarrow> request \<Rightarrow> issue \<Rightarrow> resolve_error + issue" where
  "checkLocation w req i =
     (if truthy_body (req_latitude req) \<and> truthy_body (req_longitude req) then
        (let originalLat = latitude i; originalLng = longitude i;
             lat = parseFloat w (req_latitude req); lng = parseFloat w (req_longitude req)
         in if truthy_num originalLat \<and> truthy_num originalLng
               \<and> haversine (or_else originalLat 0) (or_else originalLng 0) lat lng
                   > allowedDistanceMeters
            then Inl (TooFar (round (haversine (or_else originalLat 0) (or_else originalLng 0) lat lng)))
            else Inr (i\<lparr>resolved := Some ((resolved_or_empty i)\<lparr>rlocation := Some (lat, lng)\<rparr>)\<rparr>))
      else Inr i)"

definition setPoints :: "nat \<Rightarrow> int \<Rightarrow> user list \<Rightarrow> user list" where
  \<comment> \<open>\<open>reporter.save()\<close> after the points were changed\<close>
  "setPoints k p us = map (\<lambda>u. if uid u = k then u\<lparr>points := Val p\<rparr> else u) us"

definition populated :: "user list \<Rightarrow> nat field \<Rightarrow> user option" where
  \<comment> \<open>\<open>populate('reportedBy')\<close>: the referenced user, null when there is none\<close>
  "populated us f = (case f of Val k \<Rightarrow> findUserById us k | _ \<Rightarrow> None)"

definition awardPoints :: "world \<Rightarrow> db \<Rightarrow> issue \<Rightarrow> resolve_error + (db \<times> issue)" where
  "awardPoints w d i =
     (if status i \<noteq> ''resolved'' then
        (case populated (users d) (reportedBy i) of
           Some reporter \<Rightarrow>
             if \<not> pointsAwarded i then
               (case pointsError w of
                  Some e \<Rightarrow> Inl (PointsFailed e)
                | None \<Rightarrow>
                    let currentPoints = or_else (points reporter) 0 in
                    Inr (d\<lparr>users := setPoints (uid reporter) (currentPoints + 10) (users d)\<rparr>,
                         i\<lparr>pointsAwarded := True\<rparr>))
             else Inr (d, i)
         | None \<Rightarrow> Inr (d, i))
      else Inr (d, i))"

definition markResolved :: "user \<Rightarrow> int \<Rightarrow> issue \<Rightarrow> issue" where
  "markResolved u now i =
     (let i1 = i\<lparr>resolvedAt := Val now, status := ''resolved''\<rparr>;
          i2 = i1\<lparr>resolved := Some ((resolved_or_empty i1)\<lparr>resolvedBy := Some (uid u)\<rparr>)\<rparr>
      in case createdAt i2 of
           Val c \<Rightarrow> i2\<lparr>actualResolutionTime := Val ((now - c) div (1000 * 60 * 60 * 24))\<rparr>
         | _ \<Rightarrow> i2)"

text \<open>
  The handler works on the document in memory and writes the issue once, with
  \<open>issue.save()\<close>; the reporter is written earlier, when the points are added. The
  call to the classifier that follows the save is wrapped in its own \<open>try\<close> and
  changes neither the answer nor the store, so it is left out.
\<close>

definition resolveIssue ::
  "world \<Rightarrow> db \<Rightarrow> nat \<Rightarrow> user \<Rightarrow> request \<Rightarrow> int \<Rightarrow> (resolve_error + issue) \<times> db" where
  "resolveIssue w d k u req now =
     (case findById (issues d) k of
        None \<Rightarrow> (Inl ResolveNotFound, d)
      | Some issue \<Rightarrow>
          let isAcceptedByUser = (acceptedBy issue = Val (uid u));
              isAdmin = (role u = ''admin'')
          in if truthy (acceptedBy issue) \<and> \<not> isAdmin \<and> \<not> isAcceptedByUser
             then (Inl OnlyAcceptor, d)
             else if \<not> truthy (acceptedBy issue) then (Inl MustBeAccepted, d)
             else (case checkLocation w req (attachPhoto req issue) of
                Inl e \<Rightarrow> (Inl e, d)
              | Inr located \<Rightarrow>
                  (case awardPoints w d located of
                     Inl e \<Rightarrow> (Inl e, d)
                   | Inr (d1, awarded) \<Rightarrow>
                       if status awarded \<noteq> ''in-progress''
                       then (Inl (NotInProgress (status awarded)), d1)
                       else (let saved = markResolved u now awarded in
                             case saveError w of
                               Some e \<Rightarrow> (Inl (ServerError e), d1)
                             | None \<Rightarrow>
                                 let d2 = d1\<lparr>issues := replaceById saved (issues d1)\<rparr> in
                                 (case notifyError w of
                                    Some e \<Rightarrow> (Inl (ServerError e), d2)
                                  | None \<Rightarrow> (Inr saved, d2))))))"

lemma checkLocation_keeps:
  "checkLocation w req i = Inr j \<Longrightarrow> status j = status i \<and> iid j = iid i"
  by (auto simp: checkLocation_def Let_def split: if_splits)

lemma attachPhoto_keeps: "status (attachPhoto req i) = status i \<and> iid (attachPhoto req i) = iid i"
  by (simp add: attachPhoto_def split: option.splits)

lemma awardPoints_keeps:
  "awardPoints w d i = Inr (d1, j) \<Longrightarrow> status j = status i \<and> iid j = iid i \<and> issues d1 = issues d"
  by (auto simp: awardPoints_def Let_def split: if_splits option.splits)

lemma markResolved_keeps:
  "status (markResolved u now i) = ''resolved'' \<and> iid (markResolved u now i) = iid i"
  by (simp add: markResolved_def Let_def split: field.splits)

lemma findById_replace_other:
  "iid s \<noteq> k \<Longrightarrow> findById (replaceById s xs) k = findById xs k"
  unfolding findById_def replaceById_def by (induction xs) auto

text \<open>
  What a resolve call can do to the stored issues: nothing, or replace the issue
  with the given id, which was in progress, by its resolved form.
\<close>

lemma resolveIssue_issues:
  assumes "findById (issues d) k = Some i"
    and "resolveIssue w d k u req now = (r, d')"
  shows "issues d' = issues d
       \<or> (status i = ''in-progress'' \<and>
          (\<exists>s. iid s = k \<and> status s = ''resolved'' \<and> issues d' = replaceById s (issues d)))"
proof -
  from assms(1) have ik: "iid i = k" by (simp add: findById_mem)
  show ?thesis
  proof (cases "checkLocation w req (attachPhoto req i)")
    case (Inl e)
    with assms show ?thesis by (auto simp: resolveIssue_def Let_def split: if_splits)
  next
    case (Inr located)
    then have l: "status located = status i" "iid located = k"
      using checkLocation_keeps [OF Inr] attachPhoto_keeps [of req i] ik by simp_all
    show ?thesis
    proof (cases "awardPoints w d located")
      case (Inl e)
      with assms Inr show ?thesis by (auto simp: resolveIssue_def Let_def split: if_splits)
    next
      case (Inr p)
      obtain d1 awarded where p: "p = (d1, awarded)" by (cases p)
      from Inr p have a: "status awarded = status i" "iid awarded = k" "issues d1 = issues d"
        using awardPoints_keeps [of w d located d1 awarded] l by simp_all
      have m: "status (markResolved u now awarded) = ''resolved''"
              "iid (markResolved u now awarded) = k"
        using markResolved_keeps [of u now awarded] a by simp_all
      from assms \<open>checkLocation w req (attachPhoto req i) = Inr located\<close> Inr p a m
      show ?thesis
        by (auto simp: resolveIssue_def Let_def split: if_splits option.splits)
    qed
  qed
qed

lemma resolveIssue_success:
  assumes ex: "findById (issues d) k = Some i"
    and s: "fst (resolveIssue w d k u req now) = Inr s"
  shows "status i = ''in-progress'' \<and> status s = ''resolved''"
proof -
  from s ex have "\<exists>aw. s = markResolved u now aw \<and> status aw = ''in-progress''
                    \<and> (\<exists>d1 l. awardPoints w d l = Inr (d1, aw)
                           \<and> checkLocation w req (attachPhoto req i) = Inr l)"
    by (auto simp: resolveIssue_def Let_def split: if_splits option.splits sum.splits)
  then obtain aw d1 l where aw: "s = markResolved u now aw" "status aw = ''in-progress''"
      "awardPoints w d l = Inr (d1, aw)" "checkLocation w req (attachPhoto req i) = Inr l"
    by blast
  have "status aw = status i"
    using awardPoints_keeps [OF aw(3)] checkLocation_keeps [OF aw(4)] attachPhoto_keeps [of req i]
    by simp
  with aw show ?thesis
    using markResolved_keeps [of u now aw] by simp
qed

text \<open>
  C2. For every resolve call on an issue of the store: with no acceptedBy recorded
  the call fails (400, the issue must be accepted first) and the store is unchanged;
  with acceptedBy recorded, a caller who is neither that staff member nor an admin
  gets Forbidden (403) and the store is unchanged; and whenever a stored issue is
  resolved after the call and was not before, its status before was in-progress.
  A successful response likewise implies that the status was in-progress.
\<close>

theorem resolveIssue_gate:
  assumes ex: "findById (issues d) k = Some i"
  shows "(\<not> truthy (acceptedBy i) \<longrightarrow>
            resolveIssue w d k u req now = (Inl MustBeAccepted, d))
       \<and> (\<forall>a. acceptedBy i = Val a \<and> a \<noteq> uid u \<and> role u \<noteq> ''admin'' \<longrightarrow>
            resolveIssue w d k u req now = (Inl OnlyAcceptor, d)
            \<and> resolve_http OnlyAcceptor = 403)
       \<and> (\<forall>k' j j'. findById (issues d) k' = Some j
              \<and> findById (issues (snd (resolveIssue w d k u req now))) k' = Some j'
              \<and> status j' = ''resolved'' \<and> status j \<noteq> ''resolved''
            \<longrightarrow> status j = ''in-progress'')
       \<and> (\<forall>s. fst (resolveIssue w d k u req now) = Inr s \<longrightarrow>
            status i = ''in-progress'' \<and> status s = ''resolved'')"
proof (intro conjI allI impI)
  assume "\<not> truthy (acceptedBy i)"
  with ex show "resolveIssue w d k u req now = (Inl MustBeAccepted, d)"
    by (simp add: resolveIssue_def Let_def)
next
  fix a assume "acceptedBy i = Val a \<and> a \<noteq> uid u \<and> role u \<noteq> ''admin''"
  with ex show "resolveIssue w d k u req now = (Inl OnlyAcceptor, d)"
    by (simp add: resolveIssue_def Let_def truthy_def)
next
  fix a show "resolve_http OnlyAcceptor = 403" by simp
next
  fix k' j j'
  assume h: "findById (issues d) k' = Some j
              \<and> findById (issues (snd (resolveIssue w d k u req now))) k' = Some j'
              \<and> status j' = ''resolved'' \<and> status j \<noteq> ''resolved''"
  obtain r d' where rd: "resolveIssue w d k u req now = (r, d')"
    by (cases "resolveIssue w d k u req now")
  from resolveIssue_issues [OF ex rd]
  show "status j = ''in-progress''"
  proof
    assume "issues d' = issues d"
    with h rd show ?thesis by auto
  next
    assume "status i = ''in-progress'' \<and>
          (\<exists>s. iid s = k \<and> status s = ''resolved'' \<and> issues d' = replaceById s (issues d))"
    then obtain s where s: "status i = ''in-progress''" "iid s = k"
        "issues d' = replaceById s (issues d)" by blast
    show ?thesis
    proof (cases "k' = k")
      case True
      with h ex s show ?thesis by auto
    next
      case False
      with s have "findById (issues d') k' = findById (issues d) k'"
        by (simp add: findById_replace_other)
      with h rd show ?thesis by auto
    qed
  qed
next
  fix s assume "fst (resolveIssue w d k u req now) = Inr s"
  with resolveIssue_success [OF ex] show "status i = ''in-progress''" by blast
next
  fix s assume "fst (resolveIssue w d k u req now) = Inr s"
  with resolveIssue_success [OF ex] show "status s = ''resolved''" by blast
qed

subsection \<open>The geofence\<close>

lemma atan2_sin_cos:
  assumes "0 \<le> x" "x < pi / 2"
  shows "atan2 (sqrt (sin x * sin x)) (sqrt (1 - sin x * sin x)) = x"
proof -
  have s: "0 \<le> sin x" using assms by (simp add: sin_ge_zero)
  have c: "0 < cos x" using assms by (simp add: cos_gt_zero_pi)
  have "1 - sin x * sin x = cos x * cos x"
    using sin_cos_squared_add [of x] by (simp add: power2_eq_square algebra_simps)
  then have "sqrt (1 - sin x * sin x) = cos x" using c by simp
  moreover have "sqrt (sin x * sin x) = sin x" using s by simp
  ultimately have "atan2 (sqrt (sin x * sin x)) (sqrt (1 - sin x * sin x)) = arctan (sin x / cos x)"
    using c by (simp add: atan2_def)
  also have "\<dots> = arctan (tan x)" by (simp add: tan_def)
  also have "\<dots> = x" using assms by (simp add: arctan_tan)
  finally show ?thesis .
qed

lemma haversine_one_degree: "haversine 0 77 1 77 = 6371000 * pi / 180"
proof -
  have "atan2 (sqrt (sin (pi / 360) * sin (pi / 360)))
          (sqrt (1 - sin (pi / 360) * sin (pi / 360))) = pi / 360"
    by (rule atan2_sin_cos) (simp_all add: pi_gt_zero)
  then show ?thesis by (simp add: haversine_def Let_def)
qed

lemma one_degree_is_far: "haversine 0 77 1 77 > allowedDistanceMeters"
proof -
  have "pi \<ge> 2" by (rule pi_ge_two)
  then show ?thesis unfolding haversine_one_degree allowedDistanceMeters_def by simp
qed

text \<open>The geofence on an authorised call, when all four coordinates pass the truthiness tests.\<close>

lemma resolveIssue_geofence:
  assumes "findById (issues d) k = Some i"
    and "acceptedBy i = Val a" "a = uid u \<or> role u = ''admin''"
    and "truthy_body (req_latitude req)" "truthy_body (req_longitude req)"
    and "latitude i = Val olat" "olat \<noteq> 0" "longitude i = Val olng" "olng \<noteq> 0"
    and "haversine olat olng (parseFloat w (req_latitude req)) (parseFloat w (req_longitude req))
           > allowedDistanceMeters"
  shows "resolveIssue w d k u req now =
           (Inl (TooFar (round (haversine olat olng (parseFloat w (req_latitude req))
                                  (parseFloat w (req_longitude req))))), d)"
proof -
  have "latitude (attachPhoto req i) = Val olat" "longitude (attachPhoto req i) = Val olng"
    using assms by (simp_all add: attachPhoto_def split: option.splits)
  with assms have "checkLocation w req (attachPhoto req i) =
      Inl (TooFar (round (haversine olat olng (parseFloat w (req_latitude req))
                                  (parseFloat w (req_longitude req)))))"
    by (simp add: checkLocation_def Let_def truthy_num_def or_else_def)
  with assms show ?thesis by (auto simp: resolveIssue_def Let_def truthy_def)
qed

text \<open>\<open>issue.resolved.location\<close>, when there is one.\<close>

definition storedLocation :: "issue \<Rightarrow> (real \<times> real) option" where
  "storedLocation i = (case resolved i of Some r \<Rightarrow> rlocation r | None \<Rightarrow> None)"

lemma checkLocation_unrecorded:
  assumes "q_null (latitude i) \<or> q_null (longitude i)"
  shows "checkLocation w req i =
           (if truthy_body (req_latitude req) \<and> truthy_body (req_longitude req)
            then Inr (i\<lparr>resolved := Some ((resolved_or_empty i)
                   \<lparr>rlocation := Some (parseFloat w (req_latitude req),
                                        parseFloat w (req_longitude req))\<rparr>)\<rparr>)
            else Inr i)"
  using assms
  by (auto simp: checkLocation_def Let_def q_null_def truthy_num_def split: field.splits)

lemma attachPhoto_coordinates:
  "latitude (attachPhoto req i) = latitude i \<and> longitude (attachPhoto req i) = longitude i"
  by (simp add: attachPhoto_def split: option.splits)

lemma awardPoints_resolved:
  "awardPoints w d i = Inr (d1, j) \<Longrightarrow> resolved j = resolved i"
  by (auto simp: awardPoints_def Let_def split: if_splits option.splits)

lemma markResolved_location:
  "storedLocation (markResolved u now i) = storedLocation i"
  by (simp add: markResolved_def storedLocation_def resolved_or_empty_def emptyResolved_def Let_def
      split: field.splits option.splits)

lemma awardPoints_total:
  "pointsError w = None \<Longrightarrow> \<exists>d1 j. awardPoints w d i = Inr (d1, j)"
  by (simp add: awardPoints_def Let_def split: option.splits)

text \<open>
  Without stored report coordinates (latitude or longitude absent or null) no
  resolve call is rejected by the geofence, whatever its body. When the
  body carries a location (both fields pass the presence test of the source: a
  non-empty string or a non-zero number) and the call succeeds, the supplied
  location, parsed, is the resolved.location of the saved issue, at any distance.
  The call does succeed for the acceptor of an issue in progress when no save or
  notification rejects.
\<close>

theorem resolveIssue_no_original_coordinates:
  assumes ex: "findById (issues d) k = Some i"
    and nocoords: "q_null (latitude i) \<or> q_null (longitude i)"
  shows "(\<forall>m. fst (resolveIssue w d k u req now) \<noteq> Inl (TooFar m))
       \<and> (truthy_body (req_latitude req) \<and> truthy_body (req_longitude req) \<longrightarrow>
            (\<forall>s. fst (resolveIssue w d k u req now) = Inr s \<longrightarrow>
               storedLocation s
                 = Some (parseFloat w (req_latitude req), parseFloat w (req_longitude req))
               \<and> findById (issues (snd (resolveIssue w d k u req now))) k = Some s))
       \<and> (acceptedBy i = Val (uid u) \<and> status i = ''in-progress'' \<and> pointsError w = None
            \<and> saveError w = None \<and> notifyError w = None
          \<longrightarrow> (\<exists>s. fst (resolveIssue w d k u req now) = Inr s))"
proof -
  let ?loc = "Some (parseFloat w (req_latitude req), parseFloat w (req_longitude req))"
  let ?l = "(attachPhoto req i)\<lparr>resolved := Some ((resolved_or_empty (attachPhoto req i))
                   \<lparr>rlocation := ?loc\<rparr>)\<rparr>"
  from ex have ik: "iid i = k" by (simp add: findById_mem)
  have nc: "q_null (latitude (attachPhoto req i)) \<or> q_null (longitude (attachPhoto req i))"
    using nocoords attachPhoto_coordinates [of req i] by simp
  obtain l where l: "checkLocation w req (attachPhoto req i) = Inr l"
    using checkLocation_unrecorded [OF nc, of w req] by (cases "truthy_body (req_latitude req)
      \<and> truthy_body (req_longitude req)") simp_all
  have p1: "\<forall>m. fst (resolveIssue w d k u req now) \<noteq> Inl (TooFar m)"
    using ex l
    by (auto simp: resolveIssue_def Let_def awardPoints_def
        split: if_splits option.splits sum.splits)
  have p2: "truthy_body (req_latitude req) \<and> truthy_body (req_longitude req) \<longrightarrow>
            (\<forall>s. fst (resolveIssue w d k u req now) = Inr s \<longrightarrow>
               storedLocation s = ?loc
               \<and> findById (issues (snd (resolveIssue w d k u req now))) k = Some s)"
  proof (intro allI impI)
    fix s
    assume supplied: "truthy_body (req_latitude req) \<and> truthy_body (req_longitude req)"
      and s: "fst (resolveIssue w d k u req now) = Inr s"
    have cl: "checkLocation w req (attachPhoto req i) = Inr ?l"
      using checkLocation_unrecorded [OF nc, of w req] supplied by simp
    have sl: "storedLocation ?l = ?loc" by (simp add: storedLocation_def)
    from s ex cl obtain d1 aw where aw: "awardPoints w d ?l = Inr (d1, aw)"
        "s = markResolved u now aw"
        "snd (resolveIssue w d k u req now) = d1\<lparr>issues := replaceById s (issues d1)\<rparr>"
      by (auto simp: resolveIssue_def Let_def split: if_splits option.splits sum.splits)
    from awardPoints_resolved [OF aw(1)] have "storedLocation aw = storedLocation ?l"
      by (simp add: storedLocation_def)
    with sl aw(2) have a: "storedLocation s = ?loc" by (simp add: markResolved_location)
    from awardPoints_keeps [OF aw(1)] have "issues d1 = issues d" "iid aw = k"
      using ik attachPhoto_keeps [of req i] by simp_all
    with aw(2) have "iid s = k" using markResolved_keeps [of u now aw] by simp
    with ex \<open>issues d1 = issues d\<close> aw(3)
    have "findById (issues (snd (resolveIssue w d k u req now))) k = Some s"
      by (simp add: findById_replace)
    with a show "storedLocation s = ?loc
            \<and> findById (issues (snd (resolveIssue w d k u req now))) k = Some s" by simp
  qed
  have p3: "acceptedBy i = Val (uid u) \<and> status i = ''in-progress'' \<and> pointsError w = None
            \<and> saveError w = None \<and> notifyError w = None
          \<longrightarrow> (\<exists>s. fst (resolveIssue w d k u req now) = Inr s)"
  proof
    assume h: "acceptedBy i = Val (uid u) \<and> status i = ''in-progress'' \<and> pointsError w = None
            \<and> saveError w = None \<and> notifyError w = None"
    then obtain d1 aw where aw: "awardPoints w d l = Inr (d1, aw)"
      using awardPoints_total [of w d l] by blast
    from awardPoints_keeps [OF aw] checkLocation_keeps [OF l]
    have "status aw = ''in-progress''"
      using h attachPhoto_keeps [of req i] by simp
    with ex l aw h show "\<exists>s. fst (resolveIssue w d k u req now) = Inr s"
      by (simp add: resolveIssue_def Let_def truthy_def)
  qed
  from p1 p2 p3 show ?thesis by blast
qed

section \<open>Concrete runs of the controller\<close>

text \<open>
  A store for the concrete runs: issue 1 is a fresh report, issue 2 has been accepted
  by staff member 8, issue 3 was accepted by staff member 8 and escalated afterwards,
  issue 4 is like issue 2 and lies on the equator; staff members 7 and 8 are field
  staff, user 3 is the citizen who reported the issues.
\<close>

definition report1 :: issue where
  "report1 =
     \<lparr>iid = 1, title = ''Pothole'', category = ''Roads'', priority = Val ''high'',
      status = ''reported'', assignedRole = Missing, assignedTo = Missing,
      assignedBy = Missing, assignedAt = Missing, acceptedBy = Missing,
      acceptedAt = Missing, escalationDeadline = Missing, escalationHistory = [],
      createdAt = Val 0, reportedBy = Val 3, pointsAwarded = False,
      latitude = Val 16, longitude = Val 77, resolved = None, resolvedAt = Missing,
      actualResolutionTime = Missing\<rparr>"

definition report2 :: issue where
  "report2 =
     report1\<lparr>iid := 2, status := ''in-progress'', assignedTo := Val 8, assignedBy := Val 8,
       assignedAt := Val 100, acceptedBy := Val 8, acceptedAt := Val 100\<rparr>"

definition report3 :: issue where
  "report3 =
     report2\<lparr>iid := 3, status := ''escalated'', assignedRole := Val ''supervisor''\<rparr>"

definition report4 :: issue where
  "report4 = report2\<lparr>iid := 4, latitude := Val 0\<rparr>"

definition staff7 :: user where
  "staff7 =
     \<lparr>uid = 7, role = ''field-staff'', isActive = True, departments = [''Roads''],
      department = Missing, loginCount = 2, lastLogin = Some 50, points = Missing\<rparr>"

definition staff8 :: user where
  "staff8 = staff7\<lparr>uid := 8, loginCount := 1\<rparr>"

definition citizen3 :: user where
  "citizen3 =
     \<lparr>uid = 3, role = ''citizen'', isActive = True, departments = [],
      department = Missing, loginCount = 1, lastLogin = Some 10, points = Val 0\<rparr>"

definition store0 :: db where
  "store0 =
     \<lparr>issues = [report1, report2, report3, report4], users = [citizen3, staff7, staff8]\<rparr>"

definition world0 :: world where
  "world0 =
     \<lparr>parseFloatStr = (\<lambda>s. 0), pointsError = None, saveError = None, notifyError = None\<rparr>"

definition noLocation :: request where
  "noLocation = \<lparr>req_latitude = Absent, req_longitude = Absent, req_file = None\<rparr>"

definition oneDegreeNorth :: request where
  "oneDegreeNorth = \<lparr>req_latitude = Num 1, req_longitude = Num 77, req_file = None\<rparr>"

theorem acceptIssue_exclusive_witness:
  "acceptIssue store0 1 staff7 5000 =
     (Inr (Some (report1\<lparr>status := ''in-progress'', acceptedBy := Val 7, acceptedAt := Val 5000,
                   assignedTo := Val 7, assignedBy := Val 7, assignedAt := Val 5000\<rparr>)),
      store0\<lparr>issues :=
        [report1\<lparr>status := ''in-progress'', acceptedBy := Val 7, acceptedAt := Val 5000,
                   assignedTo := Val 7, assignedBy := Val 7, assignedAt := Val 5000\<rparr>,
         report2, report3, report4]\<rparr>)
   \<and> acceptIssue store0 2 staff7 5000 = (Inl AssignedToAnother, store0)"
proof -
  have emp: "role staff7 \<in> set employeeRoles" by (simp add: staff7_def employeeRoles_def)
  have uniq: "distinct (map iid (issues store0))"
    by (simp add: store0_def report1_def report2_def report3_def report4_def)
  have f1: "findById (issues store0) 1 = Some report1"
    by (simp add: findById_def store0_def report1_def)
  have f2: "findById (issues store0) 2 = Some report2"
    by (simp add: findById_def store0_def report1_def report2_def)
  have a1: "acceptable report1 staff7"
    by (simp add: acceptable_def report1_def truthy_def)
  have a2: "\<not> acceptable report2 staff7"
    by (simp add: acceptable_def report2_def report1_def truthy_def staff7_def)
  have r1: "accepted report1 staff7 5000 =
      report1\<lparr>status := ''in-progress'', acceptedBy := Val 7, acceptedAt := Val 5000,
                   assignedTo := Val 7, assignedBy := Val 7, assignedAt := Val 5000\<rparr>"
    by (simp add: accepted_def report1_def staff7_def)
  have rep: "replaceById (accepted report1 staff7 5000) (issues store0)
               = [accepted report1 staff7 5000, report2, report3, report4]"
    by (simp add: replaceById_def store0_def accepted_def report1_def report2_def report3_def
        report4_def)
  have t2: "truthy (assignedTo report2) \<and> assignedTo report2 \<noteq> Val (uid staff7)"
    by (simp add: report2_def report1_def truthy_def staff7_def)
  from acceptIssue_exclusive [OF emp uniq f1, of 5000] a1 r1 rep
  have one: "acceptIssue store0 1 staff7 5000 =
     (Inr (Some (report1\<lparr>status := ''in-progress'', acceptedBy := Val 7, acceptedAt := Val 5000,
                   assignedTo := Val 7, assignedBy := Val 7, assignedAt := Val 5000\<rparr>)),
      store0\<lparr>issues :=
        [report1\<lparr>status := ''in-progress'', acceptedBy := Val 7, acceptedAt := Val 5000,
                   assignedTo := Val 7, assignedBy := Val 7, assignedAt := Val 5000\<rparr>,
         report2, report3, report4]\<rparr>)"
    by simp
  from acceptIssue_exclusive [OF emp uniq f2, of 5000] a2 t2
  have "snd (acceptIssue store0 2 staff7 5000) = store0"
    and "fst (acceptIssue store0 2 staff7 5000) = Inl AssignedToAnother"
    by simp_all
  then have two: "acceptIssue store0 2 staff7 5000 = (Inl AssignedToAnother, store0)"
    by (metis prod.collapse)
  from one two show ?thesis by simp
qed

lemmas ex_defs = store0_def report1_def report2_def report3_def report4_def staff7_def staff8_def
  citizen3_def world0_def noLocation_def oneDegreeNorth_def
lemmas run_defs = resolveIssue_def findById_def findUserById_def truthy_def truthy_num_def
  truthy_body_def checkLocation_def attachPhoto_def awardPoints_def populated_def or_else_def
  markResolved_def setPoints_def replaceById_def resolved_or_empty_def emptyResolved_def
  parseFloat_def Let_def

text \<open>
  Runs of C2: an issue nobody accepted, a caller who is not the acceptor, and the
  acceptor resolving an issue in progress.
\<close>

theorem resolveIssue_gate_witness:
  "resolveIssue world0 store0 1 staff8 noLocation 9000 = (Inl MustBeAccepted, store0)
   \<and> resolveIssue world0 store0 2 staff7 noLocation 9000 = (Inl OnlyAcceptor, store0)
   \<and> status report2 = ''in-progress''
   \<and> status (markResolved staff8 9000 (report2\<lparr>pointsAwarded := True\<rparr>)) = ''resolved''"
proof -
  have f1: "findById (issues store0) 1 = Some report1" by (simp add: findById_def ex_defs)
  have f2: "findById (issues store0) 2 = Some report2" by (simp add: findById_def ex_defs)
  have n1: "\<not> truthy (acceptedBy report1)" by (simp add: truthy_def ex_defs)
  have o2: "acceptedBy report2 = Val 8 \<and> 8 \<noteq> uid staff7 \<and> role staff7 \<noteq> ''admin''"
    by (simp add: ex_defs)
  have ok: "fst (resolveIssue world0 store0 2 staff8 noLocation 9000)
              = Inr (markResolved staff8 9000 (report2\<lparr>pointsAwarded := True\<rparr>))"
    by (simp add: run_defs ex_defs)
  from resolveIssue_gate [OF f1, of world0 staff8 noLocation 9000] n1
  have a: "resolveIssue world0 store0 1 staff8 noLocation 9000 = (Inl MustBeAccepted, store0)"
    by blast
  from resolveIssue_gate [OF f2, of world0 staff7 noLocation 9000] o2
  have b: "resolveIssue world0 store0 2 staff7 noLocation 9000 = (Inl OnlyAcceptor, store0)"
    by blast
  from resolveIssue_gate [OF f2, of world0 staff8 noLocation 9000] ok
  have c: "status report2 = ''in-progress''
         \<and> status (markResolved staff8 9000 (report2\<lparr>pointsAwarded := True\<rparr>)) = ''resolved''"
    by blast
  from a b c show ?thesis by simp
qed

text \<open>
  C8. A resolve call that supplies a location more than 100 meters from the recorded
  report location is meant to fail with a validation error. The source tests the
  presence of the original coordinates by truthiness, so a recorded latitude or
  longitude of 0 counts as absent and the distance is never computed. Issue 4 lies
  on the equator (latitude 0, longitude 77); the acceptor resolves it from latitude 1,
  longitude 77, one degree of latitude away (6371000 * pi / 180 meters): the call
  succeeds and the location is stored.
\<close>

theorem resolveIssue_equator_unchecked:
  "latitude report4 = Val 0 \<and> longitude report4 = Val 77
   \<and> haversine 0 77 (parseFloat world0 (req_latitude oneDegreeNorth))
        (parseFloat world0 (req_longitude oneDegreeNorth)) > allowedDistanceMeters
   \<and> resolveIssue world0 store0 4 staff8 oneDegreeNorth 9000 =
       (Inr (markResolved staff8 9000
              (report4\<lparr>pointsAwarded := True,
                 resolved := Some (emptyResolved\<lparr>rlocation := Some (1, 77)\<rparr>)\<rparr>)),
        \<lparr>issues = [report1, report2, report3,
           markResolved staff8 9000
              (report4\<lparr>pointsAwarded := True,
                 resolved := Some (emptyResolved\<lparr>rlocation := Some (1, 77)\<rparr>)\<rparr>)],
         users = [citizen3\<lparr>points := Val 10\<rparr>, staff7, staff8]\<rparr>)"
proof -
  have "haversine 0 77 (parseFloat world0 (req_latitude oneDegreeNorth))
        (parseFloat world0 (req_longitude oneDegreeNorth)) > allowedDistanceMeters"
    using one_degree_is_far by (simp add: parseFloat_def oneDegreeNorth_def)
  moreover have "resolveIssue world0 store0 4 staff8 oneDegreeNorth 9000 =
       (Inr (markResolved staff8 9000
              (report4\<lparr>pointsAwarded := True,
                 resolved := Some (emptyResolved\<lparr>rlocation := Some (1, 77)\<rparr>)\<rparr>)),
        \<lparr>issues = [report1, report2, report3,
           markResolved staff8 9000
              (report4\<lparr>pointsAwarded := True,
                 resolved := Some (emptyResolved\<lparr>rlocation := Some (1, 77)\<rparr>)\<rparr>)],
         users = [citizen3\<lparr>points := Val 10\<rparr>, staff7, staff8]\<rparr>)"
    by (simp add: run_defs ex_defs)
  ultimately show ?thesis by (simp add: ex_defs)
qed

text \<open>Issue 5 is like issue 2, without report coordinates.\<close>

definition report5 :: issue where
  "report5 = report2\<lparr>iid := 5, latitude := Missing, longitude := Missing\<rparr>"

definition store5 :: db where
  "store5 = \<lparr>issues = [report5], users = [citizen3, staff8]\<rparr>"

text \<open>A run of it: the acceptor resolves issue 5 from latitude 1, longitude 77.\<close>

theorem resolveIssue_no_original_coordinates_witness:
  "storedLocation (markResolved staff8 9000
      (report5\<lparr>pointsAwarded := True,
         resolved := Some (emptyResolved\<lparr>rlocation := Some (1, 77)\<rparr>)\<rparr>)) = Some (1, 77)
   \<and> findById (issues (snd (resolveIssue world0 store5 5 staff8 oneDegreeNorth 9000))) 5 =
      Some (markResolved staff8 9000
      (report5\<lparr>pointsAwarded := True,
         resolved := Some (emptyResolved\<lparr>rlocation := Some (1, 77)\<rparr>)\<rparr>))"
proof -
  have f: "findById (issues store5) 5 = Some report5"
    by (simp add: findById_def store5_def report5_def ex_defs)
  have n: "q_null (latitude report5) \<or> q_null (longitude report5)"
    by (simp add: q_null_def report5_def)
  have su: "truthy_body (req_latitude oneDegreeNorth) \<and> truthy_body (req_longitude oneDegreeNorth)"
    by (simp add: truthy_body_def oneDegreeNorth_def)
  have ok: "fst (resolveIssue world0 store5 5 staff8 oneDegreeNorth 9000) =
      Inr (markResolved staff8 9000
      (report5\<lparr>pointsAwarded := True,
         resolved := Some (emptyResolved\<lparr>rlocation := Some (1, 77)\<rparr>)\<rparr>))"
    by (simp add: run_defs ex_defs store5_def report5_def q_null_def)
  have pf: "parseFloat world0 (req_latitude oneDegreeNorth) = 1"
           "parseFloat world0 (req_longitude oneDegreeNorth) = 77"
    by (simp_all add: parseFloat_def oneDegreeNorth_def)
  from resolveIssue_no_original_coordinates [OF f n, of world0 staff8 oneDegreeNorth 9000] su ok pf
  show ?thesis by simp
qed

text \<open>A body whose latitude is the number 0.\<close>

definition equatorBody :: request where
  "equatorBody = \<lparr>req_latitude = Num 0, req_longitude = Num 77, req_file = None\<rparr>"

text \<open>
  C10. Without stored report coordinates any supplied resolution location is meant
  to be accepted and stored in resolved.location. The source tests the presence of
  the body fields by truthiness (\<open>if (latitude && longitude)\<close>), so a supplied
  numeric coordinate 0 counts as absent. On issue 5, which has no report
  coordinates, the acceptor resolves with the body latitude 0, longitude 77: no
  geofence error, the call succeeds, and no location is stored.
\<close>

theorem resolveIssue_zero_coordinate_dropped:
  "q_null (latitude report5) \<and> q_null (longitude report5)
   \<and> req_latitude equatorBody = Num 0 \<and> req_longitude equatorBody = Num 77
   \<and> resolveIssue world0 store5 5 staff8 equatorBody 9000 =
       (Inr (markResolved staff8 9000 (report5\<lparr>pointsAwarded := True\<rparr>)),
        \<lparr>issues = [markResolved staff8 9000 (report5\<lparr>pointsAwarded := True\<rparr>)],
         users = [citizen3\<lparr>points := Val 10\<rparr>, staff8]\<rparr>)
   \<and> storedLocation (markResolved staff8 9000 (report5\<lparr>pointsAwarded := True\<rparr>)) = None"
  by (simp add: run_defs ex_defs store5_def report5_def equatorBody_def q_null_def
      storedLocation_def)

section \<open>escalationService: the staff directory\<close>

text \<open>
  \<open>sort({ loginCount: 1, lastLogin: -1 })\<close>: ascending login count, then descending
  last login, a user who never logged in coming last among equals. Users that agree
  on both keys keep the order of the collection.
\<close>

definition loginNotBefore :: "int option \<Rightarrow> int option \<Rightarrow> bool" where
  "loginNotBefore a b =
     (case b of None \<Rightarrow> True | Some y \<Rightarrow> (case a of None \<Rightarrow> False | Some x \<Rightarrow> y \<le> x))"

definition userBefore :: "user \<Rightarrow> user \<Rightarrow> bool" where
  "userBefore a b =
     (loginCount a < loginCount b \<or>
      (loginCount a = loginCount b \<and> loginNotBefore (lastLogin a) (lastLogin b)))"

fun insertUser :: "user \<Rightarrow> user list \<Rightarrow> user list" where
  "insertUser u [] = [u]"
| "insertUser u (v # vs) = (if userBefore u v then u # v # vs else v # insertUser u vs)"

definition sortUsers :: "user list \<Rightarrow> user list" where
  "sortUsers us = foldr insertUser us []"

definition findUsers :: "(user \<Rightarrow> bool) \<Rightarrow> user list \<Rightarrow> user list" where
  \<comment> \<open>\<open>User.find(q).sort(...)\<close>\<close>
  "findUsers q us = sortUsers (filter q us)"

definition findOneUser :: "(user \<Rightarrow> bool) \<Rightarrow> user list \<Rightarrow> user option" where
  \<comment> \<open>\<open>User.findOne(q).sort(...)\<close>\<close>
  "findOneUser q us = (case findUsers q us of [] \<Rightarrow> None | u # _ \<Rightarrow> Some u)"

definition departmentIn :: "string list \<Rightarrow> user \<Rightarrow> bool" where
  \<comment> \<open>\<open>$or: [{ departments: { $in: vs } }, { department: { $in: vs } }]\<close>, the first on an array\<close>
  "departmentIn vs u = ((\<exists>x \<in> set (departments u). x \<in> set vs) \<or> q_in vs (department u))"

definition departmentIs :: "string \<Rightarrow> user \<Rightarrow> bool" where
  \<comment> \<open>\<open>$or: [{ departments: v }, { department: v }]\<close>: an array matches when it holds v\<close>
  "departmentIs v u = (v \<in> set (departments u) \<or> q_eq v (department u))"

definition findUserForRole :: "user list \<Rightarrow> string \<Rightarrow> string \<Rightarrow> user option" where
  "findUserForRole us r cat =
     (case findOneUser (\<lambda>u. role u = r \<and> isActive u \<and> departmentIn [cat, ''All''] u) us of
        Some u \<Rightarrow> Some u
      | None \<Rightarrow>
          (case findOneUser (\<lambda>u. role u = r \<and> isActive u \<and> departmentIs ''All'' u) us of
             Some u \<Rightarrow> Some u
           | None \<Rightarrow> findOneUser (\<lambda>u. role u = r \<and> isActive u) us))"

definition findAllUsersForRole :: "user list \<Rightarrow> string \<Rightarrow> string \<Rightarrow> user list" where
  "findAllUsersForRole us r cat =
     (let users1 = findUsers (\<lambda>u. role u = r \<and> isActive u \<and> departmentIn [cat, ''All''] u) us
      in if users1 = [] then
           (let users2 = findUsers (\<lambda>u. role u = r \<and> isActive u \<and> departmentIs ''All'' u) us
            in if users2 = [] then findUsers (\<lambda>u. role u = r \<and> isActive u) us else users2)
         else users1)"

text \<open>The three tiers in the words of the specification.\<close>

definition departmentSet :: "user \<Rightarrow> string set" where
  "departmentSet u = set (departments u) \<union> (case department u of Val x \<Rightarrow> {x} | _ \<Rightarrow> {})"

definition tier1 :: "string \<Rightarrow> string \<Rightarrow> user \<Rightarrow> bool" where
  "tier1 r cat u =
     (isActive u \<and> role u = r \<and> (cat \<in> departmentSet u \<or> ''All'' \<in> departmentSet u))"

definition tier2 :: "string \<Rightarrow> user \<Rightarrow> bool" where
  "tier2 r u = (isActive u \<and> role u = r \<and> departmentSet u = {''All''})"

definition tier3 :: "string \<Rightarrow> user \<Rightarrow> bool" where
  "tier3 r u = (isActive u \<and> role u = r)"

fun firstNonEmpty :: "'a list list \<Rightarrow> 'a list" where
  "firstNonEmpty [] = []"
| "firstNonEmpty (xs # rest) = (if xs = [] then firstNonEmpty rest else xs)"

definition eligibleStaff :: "user list \<Rightarrow> string \<Rightarrow> string \<Rightarrow> user list" where
  "eligibleStaff us r cat =
     firstNonEmpty [sortUsers (filter (tier1 r cat) us),
                    sortUsers (filter (tier2 r) us),
                    sortUsers (filter (tier3 r) us)]"

lemma userBefore_total: "userBefore a b \<or> userBefore b a"
  by (auto simp: userBefore_def loginNotBefore_def split: option.splits)

lemma userBefore_trans: "userBefore a b \<Longrightarrow> userBefore b c \<Longrightarrow> userBefore a c"
  by (auto simp: userBefore_def loginNotBefore_def split: option.splits)

lemma set_insertUser: "set (insertUser u vs) = insert u (set vs)"
  by (induction vs) auto

lemma mset_insertUser: "mset (insertUser u vs) = add_mset u (mset vs)"
  by (induction vs) auto

lemma sorted_insertUser:
  "sorted_wrt userBefore vs \<Longrightarrow> sorted_wrt userBefore (insertUser u vs)"
proof (induction vs)
  case Nil
  then show ?case by simp
next
  case (Cons v vs)
  show ?case
  proof (cases "userBefore u v")
    case True
    with Cons.prems show ?thesis by (auto intro: userBefore_trans)
  next
    case False
    then have "userBefore v u" using userBefore_total by blast
    with False Cons show ?thesis by (auto simp: set_insertUser)
  qed
qed

lemma sorted_sortUsers: "sorted_wrt userBefore (sortUsers us)"
  unfolding sortUsers_def by (induction us) (simp_all add: sorted_insertUser)

lemma mset_sortUsers: "mset (sortUsers us) = mset us"
  unfolding sortUsers_def by (induction us) (simp_all add: mset_insertUser)

lemma set_sortUsers: "set (sortUsers us) = set us"
  unfolding sortUsers_def by (induction us) (simp_all add: set_insertUser)

lemma sortUsers_empty: "(sortUsers us = []) = (us = [])"
  using set_sortUsers [of us] by (metis set_empty)

lemma departmentIn_set:
  "departmentIn [c, a] u = (c \<in> departmentSet u \<or> a \<in> departmentSet u)"
  by (auto simp: departmentIn_def departmentSet_def q_in_def split: field.splits)

lemma departmentIs_set: "departmentIs a u = (a \<in> departmentSet u)"
  by (auto simp: departmentIs_def departmentSet_def q_eq_def split: field.splits)

lemma sorted_firstNonEmpty:
  "\<forall>xs \<in> set xss. sorted_wrt userBefore xs \<Longrightarrow> sorted_wrt userBefore (firstNonEmpty xss)"
  by (induction xss) auto

lemma findUsers_empty: "(findUsers q us = []) = (\<forall>u \<in> set us. \<not> q u)"
  by (simp add: findUsers_def sortUsers_empty filter_empty_conv)

text \<open>
  C9. For every role and category the list variant returns the first non-empty of
  the three tiers of the specification: active staff of the role whose department
  set holds the category or "All"; active staff of the role whose department set is
  "All"; any active staff of the role. Each tier is a permutation of the matching
  users, ordered by ascending login count and then descending last login. The result
  is empty exactly when no active user has the role, and the single-result variant
  returns the head of the same list (nothing when it is empty).
\<close>

theorem directory_lookup:
  "findAllUsersForRole us r cat = eligibleStaff us r cat
   \<and> sorted_wrt userBefore (sortUsers (filter (tier1 r cat) us))
   \<and> sorted_wrt userBefore (sortUsers (filter (tier2 r) us))
   \<and> sorted_wrt userBefore (sortUsers (filter (tier3 r) us))
   \<and> mset (sortUsers (filter (tier1 r cat) us)) = mset (filter (tier1 r cat) us)
   \<and> mset (sortUsers (filter (tier2 r) us)) = mset (filter (tier2 r) us)
   \<and> mset (sortUsers (filter (tier3 r) us)) = mset (filter (tier3 r) us)
   \<and> (findAllUsersForRole us r cat = [] \<longleftrightarrow> \<not> (\<exists>u \<in> set us. isActive u \<and> role u = r))
   \<and> findUserForRole us r cat =
       (case findAllUsersForRole us r cat of [] \<Rightarrow> None | u # _ \<Rightarrow> Some u)"
proof -
  let ?q1 = "\<lambda>u. role u = r \<and> isActive u \<and> departmentIn [cat, ''All''] u"
  let ?q2 = "\<lambda>u. role u = r \<and> isActive u \<and> departmentIs ''All'' u"
  let ?q3 = "\<lambda>u. role u = r \<and> isActive u"
  have q1: "?q1 = tier1 r cat" by (auto simp: tier1_def departmentIn_set)
  have q3: "?q3 = tier3 r" by (auto simp: tier3_def)
  have q21: "\<And>u. ?q2 u \<Longrightarrow> ?q1 u" by (simp add: departmentIn_set departmentIs_set)
  have t21: "\<And>u. tier2 r u \<Longrightarrow> tier1 r cat u" by (auto simp: tier1_def tier2_def)
  have e2: "findUsers ?q1 us = [] \<Longrightarrow> findUsers ?q2 us = []"
    using q21 unfolding findUsers_empty by blast
  have e2': "sortUsers (filter (tier1 r cat) us) = [] \<Longrightarrow> sortUsers (filter (tier2 r) us) = []"
    using t21 by (auto simp: sortUsers_empty filter_empty_conv)
  have all: "findAllUsersForRole us r cat =
      (if findUsers ?q1 us = [] then findUsers ?q3 us else findUsers ?q1 us)"
    using e2 by (auto simp: findAllUsersForRole_def Let_def)
  have spec: "eligibleStaff us r cat =
      (if findUsers ?q1 us = [] then findUsers ?q3 us else findUsers ?q1 us)"
    using e2' by (auto simp: eligibleStaff_def findUsers_def q1 q3)
  have one: "findUserForRole us r cat =
       (case findAllUsersForRole us r cat of [] \<Rightarrow> None | u # _ \<Rightarrow> Some u)"
    using e2 unfolding all
    by (auto simp: findUserForRole_def findOneUser_def split: list.splits option.splits)
  have emp: "findAllUsersForRole us r cat = [] \<longleftrightarrow> \<not> (\<exists>u \<in> set us. isActive u \<and> role u = r)"
    unfolding all by (auto simp: findUsers_empty)
  from all spec one emp show ?thesis
    by (simp add: sorted_sortUsers mset_sortUsers)
qed

section \<open>escalationService: the sweep\<close>

text \<open>
  What the service calls outside its own file: the deadline table of the Issue model
  (\<open>calculateEscalationDeadline\<close>, a parameter: priority as read from the document,
  role, current time), and whether \<open>issue.save()\<close> and \<open>notifyIssueAssignment\<close>
  reject (with which message). The clock is read once per sweep.
\<close>

record services =
  calculateEscalationDeadline :: "string field \<Rightarrow> string \<Rightarrow> int \<Rightarrow> int"
  issueSaveError :: "issue \<Rightarrow> string option"
  assignmentNoticeError :: "issue \<Rightarrow> user \<Rightarrow> string option"

record notice =
  aboutIssue :: nat
  recipient :: nat
  actor :: nat

record state =
  store :: db
  outbox :: "notice list"

record resultEntry =
  issueId :: nat
  entryTitle :: string
  entryFromRole :: "string field"
  entryToRole :: "string field"
  success :: bool
  error :: "string option"

record escalationResult =
  resultToRole :: string
  resultAssignedTo :: nat
  notifiedUsers :: "nat option"

record sweepSummary =
  checked :: nat
  escalated :: nat
  failed :: nat
  results :: "resultEntry list"

definition q_ne :: "'a \<Rightarrow> 'a field \<Rightarrow> bool" where
  \<comment> \<open>\<open>{ f: { $ne: v } }\<close>: also matches a field that is absent or null\<close>
  "q_ne v f = (\<not> q_eq v f)"

definition graceMillis :: int where
  "graceMillis = 5 * 60 * 1000"

definition overdueFilter :: "int \<Rightarrow> issue \<Rightarrow> bool" where
  "overdueFilter now i =
     (q_in [''reported'', ''in-progress'', ''escalated''] (Val (status i)) \<and>
      ((q_in [''field-staff'', ''supervisor''] (assignedRole i)
          \<and> q_ne ''commissioner'' (assignedRole i)
          \<and> q_lte now (escalationDeadline i) \<and> q_exists True (escalationDeadline i))
       \<or> (q_exists False (escalationDeadline i)
          \<and> q_in [''field-staff'', ''supervisor''] (assignedRole i)
          \<and> q_exists True (assignedRole i)
          \<and> q_exists True (assignedAt i))
       \<or> (q_null (escalationDeadline i)
          \<and> q_in [''field-staff'', ''supervisor''] (assignedRole i)
          \<and> q_exists True (assignedRole i)
          \<and> q_lte (now - graceMillis) (createdAt i))
       \<or> (q_exists False (assignedRole i)
          \<and> q_eq ''reported'' (Val (status i))
          \<and> q_lte (now - graceMillis) (createdAt i))))"

definition saveIssue :: "services \<Rightarrow> state \<Rightarrow> issue \<Rightarrow> string + state" where
  \<comment> \<open>\<open>await issue.save()\<close>\<close>
  "saveIssue sv st i =
     (case issueSaveError sv i of
        Some e \<Rightarrow> Inl e
      | None \<Rightarrow> Inr (st\<lparr>store := (store st)\<lparr>issues := replaceById i (issues (store st))\<rparr>\<rparr>))"

definition issue_escalate :: "services \<Rightarrow> int \<Rightarrow> issue \<Rightarrow> string \<Rightarrow> nat \<Rightarrow> string \<Rightarrow> issue" where
  \<comment> \<open>Modelled from the spec: \<open>Issue.escalate(toRole, by, reason)\<close>, a method of the Issue
      model, which is not among the sources. It appends a history entry (from, to, by,
      reason, time), sets the role and the status escalated and recomputes the deadline
      for the new role; the awaited method saves the document.\<close>
  "issue_escalate sv now i to by why =
     i\<lparr>escalationHistory := escalationHistory i @
          [\<lparr>fromRole = assignedRole i, toRole = to, escalatedBy = by, reason = why,
            escalatedAt = now\<rparr>],
       assignedRole := Val to,
       status := ''escalated'',
       escalationDeadline := Val (calculateEscalationDeadline sv (priority i) to now)\<rparr>"

definition issue_assign :: "services \<Rightarrow> int \<Rightarrow> issue \<Rightarrow> nat \<Rightarrow> nat \<Rightarrow> string \<Rightarrow> issue" where
  \<comment> \<open>Modelled from the spec: \<open>Issue.assign(to, by, role)\<close>, a method of the Issue model,
      which is not among the sources. It sets the role, the assignee, who assigned and
      when, the status assigned (in-progress when the issue was accepted already) and
      the deadline for the role; the awaited method saves the document.\<close>
  "issue_assign sv now i to by r =
     i\<lparr>assignedRole := Val r,
       assignedTo := Val to,
       assignedBy := Val by,
       assignedAt := Val now,
       status := (if truthy (acceptedBy i) then ''in-progress'' else ''assigned''),
       escalationDeadline := Val (calculateEscalationDeadline sv (priority i) r now)\<rparr>"

definition notifyAll :: "services \<Rightarrow> state \<Rightarrow> issue \<Rightarrow> user list \<Rightarrow> user \<Rightarrow> (string + unit) \<times> state" where
  \<comment> \<open>\<open>Promise.all(users.map(user => notifyIssueAssignment(issue, user, actor)))\<close>: every
      notice is started; the call rejects when one of them does (here: the first in the list)\<close>
  "notifyAll sv st i recipients a =
     (let delivered = filter (\<lambda>u. assignmentNoticeError sv i u = None) recipients;
          st' = st\<lparr>outbox := outbox st @
                  map (\<lambda>u. \<lparr>aboutIssue = iid i, recipient = uid u, actor = uid a\<rparr>) delivered\<rparr>
      in case List.map_filter (assignmentNoticeError sv i) recipients of
           e # _ \<Rightarrow> (Inl e, st')
         | [] \<Rightarrow> (Inr (), st'))"

definition assignToFieldStaff ::
  "services \<Rightarrow> int \<Rightarrow> state \<Rightarrow> issue \<Rightarrow> (string + escalationResult option) \<times> state \<times> issue" where
  "assignToFieldStaff sv now st i =
     (case findUserForRole (users (store st)) ''field-staff'' (category i) of
        None \<Rightarrow> (Inr None, st, i)
      | Some fieldStaff \<Rightarrow>
          let assignedRole = ''field-staff'';
              i1 = issue_assign sv now i (uid fieldStaff) (uid fieldStaff) assignedRole
          in case saveIssue sv st i1 of
               Inl e \<Rightarrow> (Inl e, st, i1)
             | Inr st1 \<Rightarrow>
                 (case notifyAll sv st1 i1 [fieldStaff] fieldStaff of
                    (Inl e, st2) \<Rightarrow> (Inl e, st2, i1)
                  | (Inr _, st2) \<Rightarrow>
                      (Inr (Some \<lparr>resultToRole = assignedRole, resultAssignedTo = uid fieldStaff,
                                  notifiedUsers = None\<rparr>), st2, i1)))"

definition nextRoleOf :: "string \<Rightarrow> string option" where
  "nextRoleOf currentRole =
     (if currentRole = ''field-staff'' then Some ''supervisor''
      else if currentRole = ''supervisor'' then Some ''commissioner''
      else if currentRole = ''commissioner'' then None
      else None)"

definition escalateIssue ::
  "services \<Rightarrow> int \<Rightarrow> state \<Rightarrow> issue \<Rightarrow> (string + escalationResult option) \<times> state \<times> issue" where
  "escalateIssue sv now st i =
     (if \<not> truthy_str (assignedRole i) then assignToFieldStaff sv now st i
      else
        let currentRole = or_else (assignedRole i) [] in
        case nextRoleOf currentRole of
          None \<Rightarrow> (Inr None, st, i)
        | Some nextRole \<Rightarrow>
            (case findAllUsersForRole (users (store st)) nextRole (category i) of
               [] \<Rightarrow> (Inr None, st, i)
             | assignedUser # others \<Rightarrow>
                 let nextRoleUsers = assignedUser # others;
                     i1 = (if \<not> truthy (escalationDeadline i) \<and> truthy_str (priority i)
                              \<and> truthy_str (assignedRole i)
                           then i\<lparr>escalationDeadline :=
                                  Val (calculateEscalationDeadline sv (priority i) currentRole now)\<rparr>
                           else i);
                     i2 = issue_escalate sv now i1 nextRole (uid assignedUser)
                            ''Auto-escalated: Time limit exceeded''
                 in case saveIssue sv st i2 of
                      Inl e \<Rightarrow> (Inl e, st, i2)
                    | Inr st1 \<Rightarrow>
                        let i3 = i2\<lparr>assignedTo := Val (uid assignedUser),
                                    assignedBy := Val (uid assignedUser)\<rparr>
                        in case saveIssue sv st1 i3 of
                             Inl e \<Rightarrow> (Inl e, st1, i3)
                           | Inr st2 \<Rightarrow>
                               (case notifyAll sv st2 i3 nextRoleUsers assignedUser of
                                  (Inl e, st3) \<Rightarrow> (Inl e, st3, i3)
                                | (Inr _, st3) \<Rightarrow>
                                    (Inr (Some \<lparr>resultToRole = nextRole,
                                                resultAssignedTo = uid assignedUser,
                                                notifiedUsers = Some (length nextRoleUsers)\<rparr>),
                                     st3, i3))))"

definition hoursOld :: "int \<Rightarrow> issue \<Rightarrow> rat" where
  "hoursOld now i = of_int (now - or_else (createdAt i) now) / (1000 * 60 * 60)"

definition targetRoleOf :: "int \<Rightarrow> issue \<Rightarrow> string" where
  "targetRoleOf now i =
     (let priority = (if truthy_str (priority i) then or_else (priority i) [] else ''medium'') in
      if priority = ''high'' \<or> priority = ''urgent'' then
        (if hoursOld now i \<ge> 1 / 6 then ''commissioner''
         else if hoursOld now i \<ge> 1 / 12 then ''supervisor'' else ''field-staff'')
      else if priority = ''medium'' then
        (if hoursOld now i \<ge> 1 / 6 then ''commissioner''
         else if hoursOld now i \<ge> 1 / 12 then ''supervisor'' else ''field-staff'')
      else
        (if hoursOld now i \<ge> 1 / 6 then ''commissioner''
         else if hoursOld now i \<ge> 1 / 12 then ''supervisor'' else ''field-staff''))"

definition fastTracked :: "services \<Rightarrow> int \<Rightarrow> string \<Rightarrow> user \<Rightarrow> issue \<Rightarrow> issue" where
  "fastTracked sv now targetRole u i =
     (let i1 = i\<lparr>assignedRole := Val targetRole, assignedTo := Val (uid u),
                 assignedBy := Val (uid u), assignedAt := Val now, status := ''escalated''\<rparr>
      in if truthy_str (priority i1)
         then i1\<lparr>escalationDeadline :=
                  Val (calculateEscalationDeadline sv (priority i1) targetRole now)\<rparr>
         else i1)"

definition successEntry :: "issue \<Rightarrow> string field \<Rightarrow> string \<Rightarrow> resultEntry" where
  "successEntry i from to =
     \<lparr>issueId = iid i, entryTitle = title i, entryFromRole = from, entryToRole = Val to,
      success = True, error = None\<rparr>"

definition failureEntry :: "issue \<Rightarrow> string \<Rightarrow> resultEntry" where
  "failureEntry i e =
     \<lparr>issueId = iid i, entryTitle = title i, entryFromRole = Missing, entryToRole = Missing,
      success = False, error = Some e\<rparr>"

text \<open>
  The body of the loop, inside its \<open>try\<close>: a rejection (\<open>Inl\<close>), or the entry pushed
  onto the results, if any.
\<close>

definition processIssue ::
  "services \<Rightarrow> int \<Rightarrow> state \<Rightarrow> issue \<Rightarrow> (string + resultEntry option) \<times> state" where
  "processIssue sv now st i =
     (if \<not> truthy_str (assignedRole i) then
        (let targetRole = targetRoleOf now i in
         if targetRole = ''field-staff'' then
           (case assignToFieldStaff sv now st i of
              (Inl e, st1, i1) \<Rightarrow> (Inl e, st1)
            | (Inr None, st1, i1) \<Rightarrow> (Inr None, st1)
            | (Inr (Some r), st1, i1) \<Rightarrow>
                (Inr (Some (successEntry i1 (Val ''unassigned'') ''field-staff'')), st1))
         else
           (case findAllUsersForRole (users (store st)) targetRole (category i) of
              [] \<Rightarrow> (Inr None, st)
            | first # others \<Rightarrow>
                let targetUsers = first # others;
                    i1 = fastTracked sv now targetRole first i
                in case saveIssue sv st i1 of
                     Inl e \<Rightarrow> (Inl e, st)
                   | Inr st1 \<Rightarrow>
                       (case notifyAll sv st1 i1 targetUsers first of
                          (Inl e, st2) \<Rightarrow> (Inl e, st2)
                        | (Inr _, st2) \<Rightarrow>
                            (Inr (Some (successEntry i1 (Val ''unassigned'') targetRole)), st2))))
      else
        (case escalateIssue sv now st i of
           (Inl e, st1, i1) \<Rightarrow> (Inl e, st1)
         | (Inr None, st1, i1) \<Rightarrow> (Inr None, st1)
         | (Inr (Some r), st1, i1) \<Rightarrow>
             (Inr (Some (successEntry i1 (assignedRole i1) (resultToRole r))), st1)))"

fun sweepLoop ::
  "services \<Rightarrow> int \<Rightarrow> issue list \<Rightarrow> resultEntry list \<times> state \<Rightarrow> resultEntry list \<times> state" where
  "sweepLoop sv now [] acc = acc"
| "sweepLoop sv now (i # rest) (escalationResults, st) =
     (case processIssue sv now st i of
        (Inl e, st1) \<Rightarrow> sweepLoop sv now rest (escalationResults @ [failureEntry i e], st1)
      | (Inr None, st1) \<Rightarrow> sweepLoop sv now rest (escalationResults, st1)
      | (Inr (Some entry), st1) \<Rightarrow> sweepLoop sv now rest (escalationResults @ [entry], st1))"

definition checkAndEscalateIssues :: "services \<Rightarrow> int \<Rightarrow> state \<Rightarrow> sweepSummary \<times> state" where
  "checkAndEscalateIssues sv now st =
     (let overdueIssues = filter (overdueFilter now) (issues (store st)) in
      case sweepLoop sv now overdueIssues ([], st) of
        (escalationResults, st1) \<Rightarrow>
          (\<lparr>checked = length overdueIssues,
            escalated = length (filter (\<lambda>r. success r) escalationResults),
            failed = length (filter (\<lambda>r. \<not> success r) escalationResults),
            results = escalationResults\<rparr>, st1))"

subsection \<open>The selection of overdue issues\<close>

text \<open>The selection predicate in the words of the claim.\<close>

definition ageExceedsGrace :: "int \<Rightarrow> issue \<Rightarrow> bool" where
  "ageExceedsGrace now i = (case createdAt i of Val c \<Rightarrow> now - c > graceMillis | _ \<Rightarrow> False)"

definition staffOrSupervisor :: "issue \<Rightarrow> bool" where
  "staffOrSupervisor i =
     (assignedRole i = Val ''field-staff'' \<or> assignedRole i = Val ''supervisor'')"

definition claimedSelection :: "int \<Rightarrow> issue \<Rightarrow> bool" where
  "claimedSelection now i =
     ((status i = ''reported'' \<or> status i = ''in-progress'' \<or> status i = ''escalated'') \<and>
      ((staffOrSupervisor i \<and> (case escalationDeadline i of Val t \<Rightarrow> t \<le> now | _ \<Rightarrow> False))
       \<or> (staffOrSupervisor i \<and> escalationDeadline i = Missing \<and> truthy (assignedAt i))
       \<or> (staffOrSupervisor i \<and> escalationDeadline i = Null \<and> ageExceedsGrace now i)
       \<or> (q_null (assignedRole i) \<and> status i = ''reported'' \<and> ageExceedsGrace now i)))"

text \<open>The selection predicate as the query computes it.\<close>

definition createdBefore :: "int \<Rightarrow> issue \<Rightarrow> bool" where
  "createdBefore t i = (case createdAt i of Val c \<Rightarrow> c \<le> t | _ \<Rightarrow> False)"

definition querySelection :: "int \<Rightarrow> issue \<Rightarrow> bool" where
  "querySelection now i =
     ((status i = ''reported'' \<or> status i = ''in-progress'' \<or> status i = ''escalated'') \<and>
      ((staffOrSupervisor i \<and> (case escalationDeadline i of Val t \<Rightarrow> t \<le> now | _ \<Rightarrow> False))
       \<or> (staffOrSupervisor i \<and> escalationDeadline i = Missing \<and> assignedAt i \<noteq> Missing)
       \<or> (staffOrSupervisor i \<and> q_null (escalationDeadline i)
            \<and> createdBefore (now - graceMillis) i)
       \<or> (assignedRole i = Missing \<and> status i = ''reported''
            \<and> createdBefore (now - graceMillis) i)))"

text \<open>
  C4 (as amended). The sweep selects an issue exactly when its status is reported,
  in-progress or escalated and one of these holds: (a) assignedRole is field-staff
  or supervisor and escalationDeadline holds a time not after now; (b) assignedRole
  is field-staff or supervisor, escalationDeadline is absent and assignedAt is
  present; (c) assignedRole is field-staff or supervisor, escalationDeadline is null
  or absent and the issue was created at least the grace window (5 minutes) ago;
  (d) assignedRole is absent, the status is reported and the issue was created at
  least the grace window ago. An issue whose assignedRole is commissioner is never
  selected.
\<close>

theorem overdueFilter_selection:
  "(overdueFilter now i \<longleftrightarrow> querySelection now i)
   \<and> (assignedRole i = Val ''commissioner'' \<longrightarrow> \<not> overdueFilter now i)"
  by (auto simp: overdueFilter_def querySelection_def q_in_def q_ne_def q_eq_def q_lte_def
      q_exists_def q_null_def staffOrSupervisor_def createdBefore_def
      split: field.splits)

subsection \<open>The top of the hierarchy\<close>

text \<open>
  C5. Escalating an issue whose assignedRole is commissioner is a no-op and not an
  error: the call returns null, the document is unchanged (no history entry), the
  store is unchanged and no notice is sent.
\<close>

theorem escalateIssue_commissioner:
  assumes "assignedRole i = Val ''commissioner''"
  shows "escalateIssue sv now st i = (Inr None, st, i)"
  using assms
  by (simp add: escalateIssue_def truthy_str_def or_else_def nextRoleOf_def Let_def)

subsection \<open>What one pass of the loop leaves alone\<close>

definition untouched :: "nat \<Rightarrow> state \<Rightarrow> state \<Rightarrow> bool" where
  "untouched k st st' =
     (users (store st') = users (store st) \<and>
      findById (issues (store st')) k = findById (issues (store st)) k)"

lemma untouched_refl: "untouched k st st"
  by (simp add: untouched_def)

lemma untouched_trans: "untouched k a b \<Longrightarrow> untouched k b c \<Longrightarrow> untouched k a c"
  by (simp add: untouched_def)

lemma saveIssue_untouched:
  "saveIssue sv st i = Inr st' \<Longrightarrow> iid i \<noteq> k \<Longrightarrow> untouched k st st'"
  by (auto simp: saveIssue_def untouched_def findById_replace_other split: option.splits)

lemma notifyAll_store: "store (snd (notifyAll sv st i us a)) = store st"
  by (simp add: notifyAll_def Let_def split: list.splits)

lemma notifyAll_untouched: "notifyAll sv st i us a = (r, st') \<Longrightarrow> untouched k st st'"
  using notifyAll_store [of sv st i us a] by (simp add: untouched_def)

lemma assignToFieldStaff_untouched:
  assumes "assignToFieldStaff sv now st i = (r, st', i')" "iid i \<noteq> k"
  shows "untouched k st st' \<and> iid i' = iid i"
proof (cases "findUserForRole (users (store st)) ''field-staff'' (category i)")
  case None
  with assms show ?thesis by (simp add: assignToFieldStaff_def untouched_refl)
next
  case (Some fs)
  let ?i1 = "issue_assign sv now i (uid fs) (uid fs) ''field-staff''"
  have id1: "iid ?i1 = iid i" by (simp add: issue_assign_def)
  show ?thesis
  proof (cases "saveIssue sv st ?i1")
    case (Inl e)
    with assms Some id1 show ?thesis
      by (auto simp: assignToFieldStaff_def Let_def untouched_refl)
  next
    case (Inr st1)
    then have u1: "untouched k st st1" using saveIssue_untouched id1 assms(2) by metis
    obtain q st2 where n: "notifyAll sv st1 ?i1 [fs] fs = (q, st2)"
      by (cases "notifyAll sv st1 ?i1 [fs] fs")
    then have "untouched k st1 st2" by (rule notifyAll_untouched)
    with u1 have "untouched k st st2" by (rule untouched_trans)
    with assms Some Inr n id1 show ?thesis
      by (cases q) (auto simp: assignToFieldStaff_def Let_def)
  qed
qed

lemma escalateIssue_untouched:
  assumes "escalateIssue sv now st i = (r, st', i')" "iid i \<noteq> k"
  shows "untouched k st st' \<and> iid i' = iid i"
proof (cases "truthy_str (assignedRole i)")
  case False
  with assms assignToFieldStaff_untouched [of sv now st i r st' i' k] show ?thesis
    by (simp add: escalateIssue_def)
next
  case True
  show ?thesis
  proof (cases "nextRoleOf (or_else (assignedRole i) [])")
    case None
    with assms True show ?thesis by (simp add: escalateIssue_def Let_def untouched_refl)
  next
    case (Some nextRole)
    show ?thesis
    proof (cases "findAllUsersForRole (users (store st)) nextRole (category i)")
      case Nil
      with assms True Some show ?thesis by (simp add: escalateIssue_def Let_def untouched_refl)
    next
      case (Cons au others)
      define i1 where "i1 = (if \<not> truthy (escalationDeadline i) \<and> truthy_str (priority i)
                              \<and> truthy_str (assignedRole i)
                           then i\<lparr>escalationDeadline :=
                                  Val (calculateEscalationDeadline sv (priority i)
                                    (or_else (assignedRole i) []) now)\<rparr>
                           else i)"
      define i2 where "i2 = issue_escalate sv now i1 nextRole (uid au)
                            ''Auto-escalated: Time limit exceeded''"
      define i3 where "i3 = i2\<lparr>assignedTo := Val (uid au), assignedBy := Val (uid au)\<rparr>"
      have ids: "iid i2 = iid i" "iid i3 = iid i"
        by (simp_all add: i1_def i2_def i3_def issue_escalate_def)
      have unf: "escalateIssue sv now st i =
        (case saveIssue sv st i2 of
           Inl e \<Rightarrow> (Inl e, st, i2)
         | Inr st1 \<Rightarrow>
            (case saveIssue sv st1 i3 of
               Inl e \<Rightarrow> (Inl e, st1, i3)
             | Inr st2 \<Rightarrow>
                 (case notifyAll sv st2 i3 (au # others) au of
                    (Inl e, st3) \<Rightarrow> (Inl e, st3, i3)
                  | (Inr _, st3) \<Rightarrow>
                      (Inr (Some \<lparr>resultToRole = nextRole, resultAssignedTo = uid au,
                                  notifiedUsers = Some (length (au # others))\<rparr>), st3, i3))))"
        using True Some Cons
        by (simp add: escalateIssue_def Let_def i1_def i2_def i3_def
            cong: sum.case_cong prod.case_cong)
      show ?thesis
      proof (cases "saveIssue sv st i2")
        case (Inl e)
        with assms unf ids show ?thesis by (auto simp: untouched_refl)
      next
        case s1: (Inr st1)
        then have u1: "untouched k st st1" using saveIssue_untouched ids assms(2) by metis
        show ?thesis
        proof (cases "saveIssue sv st1 i3")
          case (Inl e)
          with assms unf ids s1 u1 show ?thesis by auto
        next
          case s2: (Inr st2)
          then have "untouched k st1 st2" using saveIssue_untouched ids assms(2) by metis
          with u1 have u2: "untouched k st st2" by (rule untouched_trans)
          obtain q st3 where n: "notifyAll sv st2 i3 (au # others) au = (q, st3)"
            by (cases "notifyAll sv st2 i3 (au # others) au")
          then have "untouched k st2 st3" by (rule notifyAll_untouched)
          with u2 have "untouched k st st3" by (rule untouched_trans)
          with assms unf ids s1 s2 n show ?thesis by (cases q) auto
        qed
      qed
    qed
  qed
qed

lemma fastTracked_iid: "iid (fastTracked sv now r u i) = iid i"
  by (simp add: fastTracked_def Let_def)

lemma processIssue_untouched:
  assumes "iid i \<noteq> k"
  shows "untouched k st (snd (processIssue sv now st i))"
proof (cases "truthy_str (assignedRole i)")
  case True
  obtain r st' i' where e: "escalateIssue sv now st i = (r, st', i')"
    by (cases "escalateIssue sv now st i") auto
  from escalateIssue_untouched [OF e assms] have "untouched k st st'" by simp
  with True e show ?thesis
    by (auto simp: processIssue_def split: sum.splits option.splits)
next
  case False
  show ?thesis
  proof (cases "targetRoleOf now i = ''field-staff''")
    case True
    obtain r st' i' where e: "assignToFieldStaff sv now st i = (r, st', i')"
      by (cases "assignToFieldStaff sv now st i") auto
    from assignToFieldStaff_untouched [OF e assms] have "untouched k st st'" by simp
    with False True e show ?thesis
      by (auto simp: processIssue_def Let_def split: sum.splits option.splits)
  next
    case nf: False
    show ?thesis
    proof (cases "findAllUsersForRole (users (store st)) (targetRoleOf now i) (category i)")
      case Nil
      with False nf show ?thesis by (simp add: processIssue_def Let_def untouched_refl)
    next
      case (Cons first others)
      let ?i1 = "fastTracked sv now (targetRoleOf now i) first i"
      show ?thesis
      proof (cases "saveIssue sv st ?i1")
        case (Inl e)
        with False nf Cons show ?thesis by (simp add: processIssue_def Let_def untouched_refl)
      next
        case (Inr st1)
        then have u1: "untouched k st st1"
          using saveIssue_untouched fastTracked_iid assms by metis
        obtain q st2 where n: "notifyAll sv st1 ?i1 (first # others) first = (q, st2)"
          by (cases "notifyAll sv st1 ?i1 (first # others) first")
        then have "untouched k st1 st2" by (rule notifyAll_untouched)
        with u1 have "untouched k st st2" by (rule untouched_trans)
        with False nf Cons Inr n show ?thesis
          by (cases q) (simp_all add: processIssue_def Let_def)
      qed
    qed
  qed
qed

subsection \<open>The loop as a trace of outcomes\<close>

fun entriesOf :: "issue \<Rightarrow> (string + resultEntry option) \<Rightarrow> resultEntry list" where
  "entriesOf i (Inl e) = [failureEntry i e]"
| "entriesOf i (Inr None) = []"
| "entriesOf i (Inr (Some entry)) = [entry]"

fun sweepTrace ::
  "services \<Rightarrow> int \<Rightarrow> issue list \<Rightarrow> state \<Rightarrow> (issue \<times> (string + resultEntry option)) list" where
  "sweepTrace sv now [] st = []"
| "sweepTrace sv now (i # rest) st =
     (i, fst (processIssue sv now st i)) #
     sweepTrace sv now rest (snd (processIssue sv now st i))"

definition traceEntries :: "(issue \<times> (string + resultEntry option)) list \<Rightarrow> resultEntry list" where
  "traceEntries tr = concat (map (\<lambda>(i, out). entriesOf i out) tr)"

lemma sweepLoop_step:
  "sweepLoop sv now (i # rest) (acc, st) =
     sweepLoop sv now rest (acc @ entriesOf i (fst (processIssue sv now st i)),
                            snd (processIssue sv now st i))"
proof (cases "processIssue sv now st i")
  case (Pair out st1)
  then show ?thesis
    by (cases out) (auto split: option.splits)
qed

lemma sweepLoop_trace:
  "fst (sweepLoop sv now xs (acc, st)) = acc @ traceEntries (sweepTrace sv now xs st)"
proof (induction xs arbitrary: acc st)
  case Nil
  then show ?case by (simp add: traceEntries_def)
next
  case (Cons i rest)
  show ?case
    unfolding sweepLoop_step using Cons.IH by (simp add: traceEntries_def)
qed

lemma sweepTrace_issues: "map fst (sweepTrace sv now xs st) = xs"
  by (induction xs arbitrary: st) simp_all

lemma length_entriesOf: "length (entriesOf i out) \<le> 1"
  by (cases "(i, out)" rule: entriesOf.cases) simp_all

lemma length_traceEntries: "length (traceEntries tr) \<le> length tr"
proof (induction tr)
  case Nil
  then show ?case by (simp add: traceEntries_def)
next
  case (Cons p tr)
  obtain i out where p: "p = (i, out)" by (cases p)
  have "length (entriesOf i out) \<le> 1" by (rule length_entriesOf)
  with Cons p show ?case by (simp add: traceEntries_def)
qed

lemma assignToFieldStaff_iid:
  "assignToFieldStaff sv now st i = (r, st', i') \<Longrightarrow> iid i' = iid i"
  by (auto simp: assignToFieldStaff_def Let_def issue_assign_def
      split: option.splits sum.splits prod.splits)

lemma escalateIssue_iid:
  "escalateIssue sv now st i = (r, st', i') \<Longrightarrow> iid i' = iid i"
  using escalateIssue_untouched [of sv now st i r st' i' "Suc (iid i)"] by simp

lemma processIssue_entry:
  assumes "fst (processIssue sv now st i) = Inr (Some entry)"
  shows "success entry \<and> error entry = None \<and> issueId entry = iid i"
proof (cases "truthy_str (assignedRole i)")
  case True
  obtain r st' i' where e: "escalateIssue sv now st i = (r, st', i')"
    by (cases "escalateIssue sv now st i") auto
  from escalateIssue_iid [OF e] have "iid i' = iid i" .
  with assms True e show ?thesis
    by (auto simp: processIssue_def successEntry_def split: sum.splits option.splits)
next
  case False
  show ?thesis
  proof (cases "targetRoleOf now i = ''field-staff''")
    case True
    obtain r st' i' where e: "assignToFieldStaff sv now st i = (r, st', i')"
      by (cases "assignToFieldStaff sv now st i") auto
    from assignToFieldStaff_iid [OF e] have "iid i' = iid i" .
    with assms False True e show ?thesis
      by (auto simp: processIssue_def Let_def successEntry_def split: sum.splits option.splits)
  next
    case nf: False
    with assms False show ?thesis
      by (auto simp: processIssue_def Let_def successEntry_def fastTracked_iid
          split: sum.splits option.splits list.splits prod.splits)
  qed
qed

lemma traceEntries_sound:
  "r \<in> set (traceEntries (sweepTrace sv now xs st)) \<Longrightarrow>
     issueId r \<in> iid ` set xs \<and> (success r \<longleftrightarrow> error r = None)"
proof (induction xs arbitrary: st)
  case Nil
  then show ?case by (simp add: traceEntries_def)
next
  case (Cons i rest)
  let ?out = "fst (processIssue sv now st i)"
  from Cons.prems have "r \<in> set (entriesOf i ?out)
      \<or> r \<in> set (traceEntries (sweepTrace sv now rest (snd (processIssue sv now st i))))"
    by (auto simp: traceEntries_def)
  then show ?case
  proof
    assume a: "r \<in> set (entriesOf i ?out)"
    show ?thesis
    proof (cases ?out)
      case (Inl e)
      with a show ?thesis by (simp add: failureEntry_def)
    next
      case (Inr opt)
      show ?thesis
      proof (cases opt)
        case None
        with a Inr show ?thesis by simp
      next
        case (Some entry)
        with Inr have "fst (processIssue sv now st i) = Inr (Some entry)" by simp
        from processIssue_entry [OF this] a Inr Some show ?thesis by simp
      qed
    qed
  next
    assume "r \<in> set (traceEntries (sweepTrace sv now rest (snd (processIssue sv now st i))))"
    from Cons.IH [OF this] show ?thesis by auto
  qed
qed

lemma traceEntries_failure:
  "(i, Inl e) \<in> set tr \<Longrightarrow> failureEntry i e \<in> set (traceEntries tr)"
  by (force simp: traceEntries_def)

subsection \<open>The fast track of a never-assigned issue\<close>

lemma hoursOld_ten_minutes:
  "(hoursOld now i \<ge> 1 / 6) = (now - or_else (createdAt i) now \<ge> 10 * 60 * 1000)"
proof -
  have "(hoursOld now i \<ge> 1 / 6)
        = ((1::rat) / 6 * 3600000 \<le> of_int (now - or_else (createdAt i) now))"
    unfolding hoursOld_def by (simp add: pos_le_divide_eq)
  also have "\<dots> = ((of_int 600000 :: rat) \<le> of_int (now - or_else (createdAt i) now))"
    by simp
  also have "\<dots> = (600000 \<le> now - or_else (createdAt i) now)"
    by (simp only: of_int_le_iff)
  finally show ?thesis by simp
qed

lemma targetRoleOf_commissioner:
  "now - or_else (createdAt i) now \<ge> 10 * 60 * 1000 \<Longrightarrow> targetRoleOf now i = ''commissioner''"
  using hoursOld_ten_minutes [of now i] by (simp add: targetRoleOf_def Let_def)

definition noticesTo :: "issue \<Rightarrow> user list \<Rightarrow> user \<Rightarrow> notice list" where
  "noticesTo i us a = map (\<lambda>u. \<lparr>aboutIssue = iid i, recipient = uid u, actor = uid a\<rparr>) us"

lemma notifyAll_ok:
  assumes "\<forall>u \<in> set us. assignmentNoticeError sv i u = None"
  shows "notifyAll sv st i us a = (Inr (), st\<lparr>outbox := outbox st @ noticesTo i us a\<rparr>)"
proof -
  from assms have "filter (\<lambda>u. assignmentNoticeError sv i u = None) us = us"
    by (simp add: filter_id_conv)
  moreover from assms have "List.map_filter (assignmentNoticeError sv i) us = []"
    by (induction us) (simp_all add: List.map_filter_simps)
  ultimately show ?thesis by (simp add: notifyAll_def Let_def noticesTo_def)
qed

lemma processIssue_fastTrack:
  assumes "\<not> truthy_str (assignedRole i)"
    and "now - or_else (createdAt i) now \<ge> 10 * 60 * 1000"
    and "findAllUsersForRole (users (store st)) ''commissioner'' (category i) = c # cs"
    and "issueSaveError sv (fastTracked sv now ''commissioner'' c i) = None"
    and "\<forall>u \<in> set (c # cs). assignmentNoticeError sv (fastTracked sv now ''commissioner'' c i) u = None"
  shows "processIssue sv now st i =
           (Inr (Some (successEntry (fastTracked sv now ''commissioner'' c i)
                         (Val ''unassigned'') ''commissioner'')),
            st\<lparr>store := (store st)\<lparr>issues :=
                   replaceById (fastTracked sv now ''commissioner'' c i) (issues (store st))\<rparr>,
               outbox := outbox st @
                   noticesTo (fastTracked sv now ''commissioner'' c i) (c # cs) c\<rparr>)"
proof -
  let ?ft = "fastTracked sv now ''commissioner'' c i"
  let ?st1 = "st\<lparr>store := (store st)\<lparr>issues := replaceById ?ft (issues (store st))\<rparr>\<rparr>"
  have t: "targetRoleOf now i = ''commissioner''"
    using assms(2) by (rule targetRoleOf_commissioner)
  have s: "saveIssue sv st ?ft = Inr ?st1" using assms(4) by (simp add: saveIssue_def)
  have n: "notifyAll sv ?st1 ?ft (c # cs) c
             = (Inr (), ?st1\<lparr>outbox := outbox ?st1 @ noticesTo ?ft (c # cs) c\<rparr>)"
    using assms(5) by (rule notifyAll_ok)
  show ?thesis
    using assms(1) assms(3) t s n by (simp add: processIssue_def Let_def)
qed

lemma sweepLoop_untouched:
  "\<forall>j \<in> set xs. iid j \<noteq> k \<Longrightarrow> untouched k st (snd (sweepLoop sv now xs (acc, st)))"
proof (induction xs arbitrary: acc st)
  case Nil
  then show ?case by (simp add: untouched_refl)
next
  case (Cons j rest)
  from Cons.prems have "iid j \<noteq> k" by simp
  then have u: "untouched k st (snd (processIssue sv now st j))"
    by (rule processIssue_untouched)
  from Cons.prems have "\<forall>j \<in> set rest. iid j \<noteq> k" by simp
  from Cons.IH [OF this]
  have "untouched k (snd (processIssue sv now st j))
          (snd (sweepLoop sv now rest (acc @ entriesOf j (fst (processIssue sv now st j)),
                 snd (processIssue sv now st j))))" .
  with u show ?case unfolding sweepLoop_step by (rule untouched_trans)
qed

lemma sweepLoop_keeps_acc: "set acc \<subseteq> set (fst (sweepLoop sv now xs (acc, st)))"
  by (simp add: sweepLoop_trace)

lemma sweepLoop_fastTrack:
  assumes "distinct (map iid xs)" "i \<in> set xs"
    and "findById (issues (store st)) (iid i) \<noteq> None"
    and "\<not> truthy_str (assignedRole i)"
    and "now - or_else (createdAt i) now \<ge> 10 * 60 * 1000"
    and "findAllUsersForRole (users (store st)) ''commissioner'' (category i) = c # cs"
    and "issueSaveError sv (fastTracked sv now ''commissioner'' c i) = None"
    and "\<forall>u \<in> set (c # cs). assignmentNoticeError sv (fastTracked sv now ''commissioner'' c i) u = None"
  shows "findById (issues (store (snd (sweepLoop sv now xs (acc, st))))) (iid i)
           = Some (fastTracked sv now ''commissioner'' c i)
       \<and> successEntry (fastTracked sv now ''commissioner'' c i) (Val ''unassigned'') ''commissioner''
           \<in> set (fst (sweepLoop sv now xs (acc, st)))"
  using assms
proof (induction xs arbitrary: acc st)
  case Nil
  then show ?case by simp
next
  case (Cons j rest)
  let ?ft = "fastTracked sv now ''commissioner'' c i"
  let ?en = "successEntry ?ft (Val ''unassigned'') ''commissioner''"
  show ?case
  proof (cases "j = i")
    case True
    let ?st1 = "st\<lparr>store := (store st)\<lparr>issues := replaceById ?ft (issues (store st))\<rparr>,
               outbox := outbox st @ noticesTo ?ft (c # cs) c\<rparr>"
    have p: "processIssue sv now st i = (Inr (Some ?en), ?st1)"
      using Cons.prems(4-8) by (rule processIssue_fastTrack)
    from Cons.prems(3) obtain old where "findById (issues (store st)) (iid i) = Some old" by blast
    then have f1: "findById (issues (store ?st1)) (iid i) = Some ?ft"
      using findById_replace [of "issues (store st)" "iid i" old ?ft] by (simp add: fastTracked_iid)
    from Cons.prems(1) True have "iid i \<notin> iid ` set rest" by simp
    then have "\<forall>x \<in> set rest. iid x \<noteq> iid i" by (metis imageI)
    then have "untouched (iid i) ?st1 (snd (sweepLoop sv now rest (acc @ [?en], ?st1)))"
      by (rule sweepLoop_untouched)
    with f1 have a: "findById (issues (store (snd (sweepLoop sv now rest (acc @ [?en], ?st1))))) (iid i)
                      = Some ?ft"
      by (simp add: untouched_def)
    have b: "?en \<in> set (fst (sweepLoop sv now rest (acc @ [?en], ?st1)))"
      using sweepLoop_keeps_acc [of "acc @ [?en]" sv now rest ?st1] by auto
    from a b show ?thesis unfolding True sweepLoop_step p by simp
  next
    case False
    with Cons.prems(2) have mem: "i \<in> set rest" by simp
    from Cons.prems(1) have "iid j \<notin> iid ` set rest" by simp
    with mem have ne: "iid j \<noteq> iid i" by (metis imageI)
    let ?st1 = "snd (processIssue sv now st j)"
    from ne have u: "untouched (iid i) st ?st1" by (rule processIssue_untouched)
    have d: "distinct (map iid rest)" using Cons.prems(1) by simp
    have f: "findById (issues (store ?st1)) (iid i) \<noteq> None"
      using u Cons.prems(3) by (simp add: untouched_def)
    have s: "findAllUsersForRole (users (store ?st1)) ''commissioner'' (category i) = c # cs"
      using u Cons.prems(6) by (simp add: untouched_def)
    show ?thesis
      unfolding sweepLoop_step
      by (rule Cons.IH [OF d mem f Cons.prems(4) Cons.prems(5) s Cons.prems(7) Cons.prems(8)])
  qed
qed

lemma findById_present: "i \<in> set xs \<Longrightarrow> findById xs (iid i) \<noteq> None"
  unfolding findById_def by (induction xs) auto

text \<open>
  C7 (as amended). In a store with unique ids, take an issue with assignedRole
  absent, status reported, created at least 10 minutes before the sweep, of any
  priority, for whose category the directory finds at least one active commissioner,
  and let neither the save of the issue nor a notice to these commissioners reject.
  After the sweep the stored issue has assignedRole commissioner (the supervisor
  level is skipped), status escalated, the first eligible commissioner as assignedTo
  and assignedBy, assignedAt = now and, when its priority is set, the deadline of
  (priority, commissioner); the results hold one success entry for it with fromRole
  "unassigned" and toRole "commissioner".
\<close>

theorem sweep_fast_track:
  assumes uniq: "distinct (map iid (issues (store st)))"
    and mem: "i \<in> set (issues (store st))"
    and unset: "assignedRole i = Missing"
    and rep: "status i = ''reported''"
    and old: "createdAt i = Val born" "now - born \<ge> 10 * 60 * 1000"
    and staff: "findAllUsersForRole (users (store st)) ''commissioner'' (category i) = c # cs"
    and saves: "issueSaveError sv (fastTracked sv now ''commissioner'' c i) = None"
    and notices: "\<forall>u \<in> set (c # cs).
                    assignmentNoticeError sv (fastTracked sv now ''commissioner'' c i) u = None"
  shows "\<exists>i'. findById (issues (store (snd (checkAndEscalateIssues sv now st)))) (iid i) = Some i'
            \<and> assignedRole i' = Val ''commissioner''
            \<and> status i' = ''escalated''
            \<and> assignedTo i' = Val (uid c) \<and> assignedBy i' = Val (uid c)
            \<and> assignedAt i' = Val now
            \<and> (truthy_str (priority i) \<longrightarrow>
                 escalationDeadline i'
                   = Val (calculateEscalationDeadline sv (priority i) ''commissioner'' now))
            \<and> \<lparr>issueId = iid i, entryTitle = title i, entryFromRole = Val ''unassigned'',
                 entryToRole = Val ''commissioner'', success = True, error = None\<rparr>
                 \<in> set (results (fst (checkAndEscalateIssues sv now st)))"
proof -
  let ?sel = "filter (overdueFilter now) (issues (store st))"
  let ?ft = "fastTracked sv now ''commissioner'' c i"
  have ov: "overdueFilter now i"
    using unset rep old
    by (simp add: overdueFilter_def q_in_def q_exists_def q_eq_def q_lte_def graceMillis_def)
  with mem have m: "i \<in> set ?sel" by simp
  have d: "distinct (map iid ?sel)" using uniq by (rule distinct_map_filter)
  have f: "findById (issues (store st)) (iid i) \<noteq> None" using mem by (rule findById_present)
  have r: "\<not> truthy_str (assignedRole i)" using unset by (simp add: truthy_str_def)
  have o: "now - or_else (createdAt i) now \<ge> 10 * 60 * 1000"
    using old by (simp add: or_else_def)
  from sweepLoop_fastTrack [OF d m f r o staff saves notices, of "[]"]
  have a: "findById (issues (store (snd (sweepLoop sv now ?sel ([], st))))) (iid i) = Some ?ft"
    and b: "successEntry ?ft (Val ''unassigned'') ''commissioner''
              \<in> set (fst (sweepLoop sv now ?sel ([], st)))"
    by simp_all
  have st': "snd (checkAndEscalateIssues sv now st) = snd (sweepLoop sv now ?sel ([], st))"
    and rs: "results (fst (checkAndEscalateIssues sv now st)) = fst (sweepLoop sv now ?sel ([], st))"
    by (simp_all add: checkAndEscalateIssues_def Let_def split: prod.splits)
  have e: "successEntry ?ft (Val ''unassigned'') ''commissioner'' =
       \<lparr>issueId = iid i, entryTitle = title i, entryFromRole = Val ''unassigned'',
                 entryToRole = Val ''commissioner'', success = True, error = None\<rparr>"
    by (simp add: successEntry_def fastTracked_def Let_def)
  have fields: "assignedRole ?ft = Val ''commissioner'' \<and> status ?ft = ''escalated''
      \<and> assignedTo ?ft = Val (uid c) \<and> assignedBy ?ft = Val (uid c) \<and> assignedAt ?ft = Val now
      \<and> (truthy_str (priority i) \<longrightarrow>
             escalationDeadline ?ft
               = Val (calculateEscalationDeadline sv (priority i) ''commissioner'' now))"
    by (simp add: fastTracked_def Let_def)
  from a b st' rs e fields show ?thesis by simp
qed

subsection \<open>What one pass of the loop does to its issue\<close>

text \<open>
  The role an issue is due for: the target derived from its age when no role is
  assigned, the next role of the hierarchy otherwise (none above the commissioner).
\<close>

definition dueRole :: "int \<Rightarrow> issue \<Rightarrow> string option" where
  "dueRole now i =
     (if truthy_str (assignedRole i) then nextRoleOf (or_else (assignedRole i) [])
      else Some (targetRoleOf now i))"

definition staffed :: "user list \<Rightarrow> string \<Rightarrow> bool" where
  "staffed us r = (\<exists>u \<in> set us. isActive u \<and> role u = r)"

text \<open>
  Who is told: every eligible member of the due role, except on a first assignment
  to field staff, where only the assignee is.
\<close>

definition recipientsOf :: "user list \<Rightarrow> issue \<Rightarrow> string \<Rightarrow> user list" where
  "recipientsOf us i r =
     (if \<not> truthy_str (assignedRole i) \<and> r = ''field-staff''
      then take 1 (findAllUsersForRole us r (category i))
      else findAllUsersForRole us r (category i))"

definition recordedSuccess :: "issue \<Rightarrow> string \<Rightarrow> resultEntry" where
  "recordedSuccess i r =
     \<lparr>issueId = iid i, entryTitle = title i,
      entryFromRole = (if truthy_str (assignedRole i) then Val r else Val ''unassigned''),
      entryToRole = Val r, success = True, error = None\<rparr>"

lemma findAllUsersForRole_staffed: "(findAllUsersForRole us r c = []) = (\<not> staffed us r)"
  by (auto simp: findAllUsersForRole_def Let_def findUsers_empty staffed_def)

lemma findUserForRole_head:
  "findUserForRole us r c = (case findAllUsersForRole us r c of [] \<Rightarrow> None | u # _ \<Rightarrow> Some u)"
proof -
  let ?q1 = "\<lambda>u. role u = r \<and> isActive u \<and> departmentIn [c, ''All''] u"
  let ?q2 = "\<lambda>u. role u = r \<and> isActive u \<and> departmentIs ''All'' u"
  have "\<And>u. ?q2 u \<Longrightarrow> ?q1 u" by (simp add: departmentIn_set departmentIs_set)
  then have e2: "findUsers ?q1 us = [] \<Longrightarrow> findUsers ?q2 us = []"
    unfolding findUsers_empty by blast
  then show ?thesis
    by (auto simp: findUserForRole_def findAllUsersForRole_def findOneUser_def Let_def
        split: list.splits option.splits)
qed

lemma replaceById_twice:
  "iid a = iid b \<Longrightarrow> replaceById b (replaceById a xs) = replaceById b xs"
  unfolding replaceById_def by (induction xs) auto

lemma map_filter_hit:
  "List.map_filter f xs = e # es \<Longrightarrow> \<exists>x \<in> set xs. f x = Some e"
proof (induction xs)
  case Nil
  then show ?case by (simp add: List.map_filter_simps)
next
  case (Cons x xs)
  then show ?case by (cases "f x") (auto simp: List.map_filter_simps)
qed

lemma notifyAll_thrown:
  assumes "notifyAll sv st i us a = (Inl e, st')"
  shows "(\<exists>u \<in> set us. assignmentNoticeError sv i u = Some e)
       \<and> store st' = store st
       \<and> (\<exists>ns. outbox st' = outbox st @ ns \<and> (\<forall>n \<in> set ns. aboutIssue n = iid i))"
proof -
  from assms obtain es where m: "List.map_filter (assignmentNoticeError sv i) us = e # es"
    by (auto simp: notifyAll_def Let_def split: list.splits)
  from map_filter_hit [OF m] have a: "\<exists>u \<in> set us. assignmentNoticeError sv i u = Some e" .
  from assms m have "st' = st\<lparr>outbox := outbox st @
       map (\<lambda>u. \<lparr>aboutIssue = iid i, recipient = uid u, actor = uid a\<rparr>)
         (filter (\<lambda>u. assignmentNoticeError sv i u = None) us)\<rparr>"
    by (simp add: notifyAll_def Let_def)
  then have "store st' = store st"
    and "\<exists>ns. outbox st' = outbox st @ ns \<and> (\<forall>n \<in> set ns. aboutIssue n = iid i)"
    by auto
  with a show ?thesis by simp
qed

lemma notifyAll_returned:
  assumes "notifyAll sv st i us a = (Inr x, st')"
  shows "st' = st\<lparr>outbox := outbox st @ noticesTo i us a\<rparr>"
proof -
  from assms have m: "List.map_filter (assignmentNoticeError sv i) us = []"
    by (auto simp: notifyAll_def Let_def split: list.splits)
  have "\<forall>u \<in> set us. assignmentNoticeError sv i u = None"
  proof (rule ccontr)
    assume "\<not> (\<forall>u \<in> set us. assignmentNoticeError sv i u = None)"
    then obtain u e where "u \<in> set us" "assignmentNoticeError sv i u = Some e" by auto
    then have "e \<in> set (List.map_filter (assignmentNoticeError sv i) us)"
      by (induction us) (auto simp: List.map_filter_simps split: option.splits)
    with m show False by simp
  qed
  from notifyAll_ok [OF this, of st a] assms show ?thesis by simp
qed

text \<open>
  The three ways a pass can end. Nothing done: nobody is active in the due role, and
  the state is as before. Done: the issue is stored at the due role with the first
  recipient as assignee, and every recipient has a notice. Thrown: a save of the
  issue or a notice about it rejected with the message; by then the issue may have
  been stored already and some notices sent.
\<close>

definition passDone :: "services \<Rightarrow> int \<Rightarrow> state \<Rightarrow> issue \<Rightarrow> (string + resultEntry option) \<times> state \<Rightarrow> bool" where
  "passDone sv now st i p =
     (\<exists>r a rest i'.
        dueRole now i = Some r \<and> recipientsOf (users (store st)) i r = a # rest
        \<and> fst p = Inr (Some (recordedSuccess i r))
        \<and> snd p = st\<lparr>store := (store st)\<lparr>issues := replaceById i' (issues (store st))\<rparr>,
                      outbox := outbox st @ noticesTo i' (a # rest) a\<rparr>
        \<and> iid i' = iid i \<and> assignedRole i' = Val r
        \<and> assignedTo i' = Val (uid a) \<and> assignedBy i' = Val (uid a))"

definition passThrown :: "services \<Rightarrow> int \<Rightarrow> state \<Rightarrow> issue \<Rightarrow> (string + resultEntry option) \<times> state \<Rightarrow> bool" where
  "passThrown sv now st i p =
     (\<exists>r e doc ns.
        dueRole now i = Some r \<and> staffed (users (store st)) r
        \<and> fst p = Inl e \<and> iid doc = iid i
        \<and> (issueSaveError sv doc = Some e \<or> (\<exists>u. assignmentNoticeError sv doc u = Some e))
        \<and> users (store (snd p)) = users (store st)
        \<and> outbox (snd p) = outbox st @ ns \<and> (\<forall>n \<in> set ns. aboutIssue n = iid i))"

definition passNothing :: "int \<Rightarrow> state \<Rightarrow> issue \<Rightarrow> (string + resultEntry option) \<times> state \<Rightarrow> bool" where
  "passNothing now st i p =
     (fst p = Inr None \<and> snd p = st
      \<and> (\<forall>r. dueRole now i = Some r \<longrightarrow> \<not> staffed (users (store st)) r))"

lemma save_then_notify:
  fixes sv st doc rs a en
  defines "p \<equiv> (case saveIssue sv st doc of
                   Inl e \<Rightarrow> (Inl e, st)
                 | Inr st1 \<Rightarrow>
                     (case notifyAll sv st1 doc rs a of
                        (Inl e, st2) \<Rightarrow> (Inl e, st2)
                      | (Inr x, st2) \<Rightarrow> (Inr (Some en), st2)))"
  shows "(fst p = Inr (Some en)
          \<and> snd p = st\<lparr>store := (store st)\<lparr>issues := replaceById doc (issues (store st))\<rparr>,
                        outbox := outbox st @ noticesTo doc rs a\<rparr>)
       \<or> (\<exists>e ns. fst p = Inl e
            \<and> (issueSaveError sv doc = Some e \<or> (\<exists>u. assignmentNoticeError sv doc u = Some e))
            \<and> users (store (snd p)) = users (store st)
            \<and> outbox (snd p) = outbox st @ ns \<and> (\<forall>n \<in> set ns. aboutIssue n = iid doc))"
proof (cases "saveIssue sv st doc")
  case (Inl e)
  then have "issueSaveError sv doc = Some e" by (simp add: saveIssue_def split: option.splits)
  with Inl show ?thesis by (simp add: p_def)
next
  case (Inr st1)
  then have st1: "st1 = st\<lparr>store := (store st)\<lparr>issues := replaceById doc (issues (store st))\<rparr>\<rparr>"
    by (simp add: saveIssue_def split: option.splits)
  obtain q st2 where n: "notifyAll sv st1 doc rs a = (q, st2)"
    by (cases "notifyAll sv st1 doc rs a")
  show ?thesis
  proof (cases q)
    case (Inl e)
    with n have t: "notifyAll sv st1 doc rs a = (Inl e, st2)" by simp
    from notifyAll_thrown [OF t] st1
    have "(\<exists>u. assignmentNoticeError sv doc u = Some e)"
      and "users (store st2) = users (store st)"
      and "\<exists>ns. outbox st2 = outbox st @ ns \<and> (\<forall>n \<in> set ns. aboutIssue n = iid doc)"
      by auto
    with Inr t show ?thesis by (auto simp: p_def)
  next
    case (Inr x)
    with n have t: "notifyAll sv st1 doc rs a = (Inr x, st2)" by simp
    from notifyAll_returned [OF t] st1
    have "st2 = st\<lparr>store := (store st)\<lparr>issues := replaceById doc (issues (store st))\<rparr>,
                        outbox := outbox st @ noticesTo doc rs a\<rparr>"
      by simp
    with \<open>saveIssue sv st doc = Inr st1\<close> t show ?thesis by (simp add: p_def)
  qed
qed

lemma pass_unassigned_fieldStaff:
  assumes u: "\<not> truthy_str (assignedRole i)" and t: "targetRoleOf now i = ''field-staff''"
  shows "passNothing now st i (processIssue sv now st i)
       \<or> passDone sv now st i (processIssue sv now st i)
       \<or> passThrown sv now st i (processIssue sv now st i)"
proof -
  let ?us = "users (store st)"
  have due: "dueRole now i = Some ''field-staff''" using u t by (simp add: dueRole_def)
  show ?thesis
  proof (cases "findAllUsersForRole ?us ''field-staff'' (category i)")
    case Nil
    then have "findUserForRole ?us ''field-staff'' (category i) = None"
      by (simp add: findUserForRole_head)
    then have "processIssue sv now st i = (Inr None, st)"
      using u t by (simp add: processIssue_def assignToFieldStaff_def Let_def)
    moreover from Nil have "\<not> staffed ?us ''field-staff''"
      using findAllUsersForRole_staffed [of ?us "''field-staff''" "category i"] by simp
    ultimately show ?thesis using due by (simp add: passNothing_def)
  next
    case (Cons a rest)
    then have f: "findUserForRole ?us ''field-staff'' (category i) = Some a"
      by (simp add: findUserForRole_head)
    from Cons have stf: "staffed ?us ''field-staff''"
      using findAllUsersForRole_staffed [of ?us "''field-staff''" "category i"] by simp
    have rc: "recipientsOf ?us i ''field-staff'' = [a]"
      using u Cons by (simp add: recipientsOf_def)
    let ?doc = "issue_assign sv now i (uid a) (uid a) ''field-staff''"
    let ?en = "successEntry ?doc (Val ''unassigned'') ''field-staff''"
    let ?p = "(case saveIssue sv st ?doc of
                   Inl e \<Rightarrow> (Inl e, st)
                 | Inr st1 \<Rightarrow>
                     (case notifyAll sv st1 ?doc [a] a of
                        (Inl e, st2) \<Rightarrow> (Inl e, st2)
                      | (Inr x, st2) \<Rightarrow> (Inr (Some ?en), st2)))"
    have p: "processIssue sv now st i = ?p"
      using u t f
      by (auto simp: processIssue_def assignToFieldStaff_def Let_def
          split: sum.splits prod.splits)
    have en: "?en = recordedSuccess i ''field-staff''"
      using u by (simp add: successEntry_def recordedSuccess_def issue_assign_def)
    have doc: "iid ?doc = iid i" "assignedRole ?doc = Val ''field-staff''"
      "assignedTo ?doc = Val (uid a)" "assignedBy ?doc = Val (uid a)"
      by (simp_all add: issue_assign_def)
    from save_then_notify [where sv=sv and st=st and doc="?doc" and rs="[a]" and a=a and en="?en"]
    show ?thesis
    proof
      assume "fst ?p = Inr (Some ?en)
          \<and> snd ?p = st\<lparr>store := (store st)\<lparr>issues := replaceById ?doc (issues (store st))\<rparr>,
                        outbox := outbox st @ noticesTo ?doc [a] a\<rparr>"
      with due rc en doc have "passDone sv now st i ?p"
        unfolding passDone_def by (intro exI [of _ "''field-staff''"] exI [of _ a]
            exI [of _ "[]"] exI [of _ ?doc]) simp
      then show ?thesis by (simp add: p)
    next
      assume "\<exists>e ns. fst ?p = Inl e
            \<and> (issueSaveError sv ?doc = Some e \<or> (\<exists>u. assignmentNoticeError sv ?doc u = Some e))
            \<and> users (store (snd ?p)) = users (store st)
            \<and> outbox (snd ?p) = outbox st @ ns \<and> (\<forall>n \<in> set ns. aboutIssue n = iid ?doc)"
      with due stf doc(1) have "passThrown sv now st i ?p"
        unfolding passThrown_def by (metis (no_types, lifting))
      then show ?thesis by (simp add: p)
    qed
  qed
qed

lemma pass_unassigned_fastTrack:
  assumes u: "\<not> truthy_str (assignedRole i)" and t: "targetRoleOf now i \<noteq> ''field-staff''"
  shows "passNothing now st i (processIssue sv now st i)
       \<or> passDone sv now st i (processIssue sv now st i)
       \<or> passThrown sv now st i (processIssue sv now st i)"
proof -
  let ?us = "users (store st)"
  let ?r = "targetRoleOf now i"
  have due: "dueRole now i = Some ?r" using u by (simp add: dueRole_def)
  show ?thesis
  proof (cases "findAllUsersForRole ?us ?r (category i)")
    case Nil
    then have "processIssue sv now st i = (Inr None, st)"
      using u t by (simp add: processIssue_def Let_def)
    moreover from Nil have "\<not> staffed ?us ?r"
      using findAllUsersForRole_staffed [of ?us ?r "category i"] by simp
    ultimately show ?thesis using due by (simp add: passNothing_def)
  next
    case (Cons a rest)
    from Cons have stf: "staffed ?us ?r"
      using findAllUsersForRole_staffed [of ?us ?r "category i"] by simp
    have rc: "recipientsOf ?us i ?r = a # rest"
      using t Cons by (simp add: recipientsOf_def)
    let ?doc = "fastTracked sv now ?r a i"
    let ?en = "successEntry ?doc (Val ''unassigned'') ?r"
    let ?p = "(case saveIssue sv st ?doc of
                   Inl e \<Rightarrow> (Inl e, st)
                 | Inr st1 \<Rightarrow>
                     (case notifyAll sv st1 ?doc (a # rest) a of
                        (Inl e, st2) \<Rightarrow> (Inl e, st2)
                      | (Inr x, st2) \<Rightarrow> (Inr (Some ?en), st2)))"
    have p: "processIssue sv now st i = ?p"
      using u t Cons by (simp add: processIssue_def Let_def)
    have en: "?en = recordedSuccess i ?r"
      using u by (simp add: successEntry_def recordedSuccess_def fastTracked_def Let_def)
    have doc: "iid ?doc = iid i" "assignedRole ?doc = Val ?r"
      "assignedTo ?doc = Val (uid a)" "assignedBy ?doc = Val (uid a)"
      by (simp_all add: fastTracked_def Let_def)
    from save_then_notify [where sv=sv and st=st and doc="?doc" and rs="a # rest" and a=a and en="?en"]
    show ?thesis
    proof
      assume "fst ?p = Inr (Some ?en)
          \<and> snd ?p = st\<lparr>store := (store st)\<lparr>issues := replaceById ?doc (issues (store st))\<rparr>,
                        outbox := outbox st @ noticesTo ?doc (a # rest) a\<rparr>"
      with due rc en doc have "passDone sv now st i ?p"
        unfolding passDone_def by (intro exI [of _ ?r] exI [of _ a]
            exI [of _ rest] exI [of _ ?doc]) simp
      then show ?thesis by (simp add: p)
    next
      assume "\<exists>e ns. fst ?p = Inl e
            \<and> (issueSaveError sv ?doc = Some e \<or> (\<exists>u. assignmentNoticeError sv ?doc u = Some e))
            \<and> users (store (snd ?p)) = users (store st)
            \<and> outbox (snd ?p) = outbox st @ ns \<and> (\<forall>n \<in> set ns. aboutIssue n = iid ?doc)"
      with due stf doc(1) have "passThrown sv now st i ?p"
        unfolding passThrown_def by (metis (no_types, lifting))
      then show ?thesis by (simp add: p)
    qed
  qed
qed

lemma pass_assigned:
  assumes u: "truthy_str (assignedRole i)"
  shows "passNothing now st i (processIssue sv now st i)
       \<or> passDone sv now st i (processIssue sv now st i)
       \<or> passThrown sv now st i (processIssue sv now st i)"
proof (cases "nextRoleOf (or_else (assignedRole i) [])")
  case None
  then have "processIssue sv now st i = (Inr None, st)"
    using u by (simp add: processIssue_def escalateIssue_def Let_def)
  moreover have "dueRole now i = None" using u None by (simp add: dueRole_def)
  ultimately show ?thesis by (simp add: passNothing_def)
next
  case (Some r)
  let ?us = "users (store st)"
  have due: "dueRole now i = Some r" using u Some by (simp add: dueRole_def)
  show ?thesis
  proof (cases "findAllUsersForRole ?us r (category i)")
    case Nil
    then have "processIssue sv now st i = (Inr None, st)"
      using u Some by (simp add: processIssue_def escalateIssue_def Let_def)
    moreover from Nil have "\<not> staffed ?us r"
      using findAllUsersForRole_staffed [of ?us r "category i"] by simp
    ultimately show ?thesis using due by (simp add: passNothing_def)
  next
    case (Cons a rest)
    from Cons have stf: "staffed ?us r"
      using findAllUsersForRole_staffed [of ?us r "category i"] by simp
    have rc: "recipientsOf ?us i r = a # rest"
      using u Cons by (simp add: recipientsOf_def)
    define i1 where "i1 = (if \<not> truthy (escalationDeadline i) \<and> truthy_str (priority i)
                              \<and> truthy_str (assignedRole i)
                           then i\<lparr>escalationDeadline :=
                                  Val (calculateEscalationDeadline sv (priority i)
                                    (or_else (assignedRole i) []) now)\<rparr>
                           else i)"
    define i2 where "i2 = issue_escalate sv now i1 r (uid a)
                            ''Auto-escalated: Time limit exceeded''"
    define i3 where "i3 = i2\<lparr>assignedTo := Val (uid a), assignedBy := Val (uid a)\<rparr>"
    have ids: "iid i2 = iid i" "iid i3 = iid i" "title i3 = title i"
      "assignedRole i3 = Val r" "assignedTo i3 = Val (uid a)" "assignedBy i3 = Val (uid a)"
      by (simp_all add: i1_def i2_def i3_def issue_escalate_def)
    let ?en = "successEntry i3 (assignedRole i3) r"
    have en: "?en = recordedSuccess i r"
      using u ids by (simp add: successEntry_def recordedSuccess_def)
    have unf: "escalateIssue sv now st i =
        (case saveIssue sv st i2 of
           Inl e \<Rightarrow> (Inl e, st, i2)
         | Inr st1 \<Rightarrow>
            (case saveIssue sv st1 i3 of
               Inl e \<Rightarrow> (Inl e, st1, i3)
             | Inr st2 \<Rightarrow>
                 (case notifyAll sv st2 i3 (a # rest) a of
                    (Inl e, st3) \<Rightarrow> (Inl e, st3, i3)
                  | (Inr _, st3) \<Rightarrow>
                      (Inr (Some \<lparr>resultToRole = r, resultAssignedTo = uid a,
                                  notifiedUsers = Some (length (a # rest))\<rparr>), st3, i3))))"
      using u Some Cons
      by (simp add: escalateIssue_def Let_def i1_def i2_def i3_def
          cong: sum.case_cong prod.case_cong)
    show ?thesis
    proof (cases "saveIssue sv st i2")
      case (Inl e)
      then have "issueSaveError sv i2 = Some e" by (simp add: saveIssue_def split: option.splits)
      moreover from Inl unf u have "processIssue sv now st i = (Inl e, st)"
        by (simp add: processIssue_def)
      ultimately have "passThrown sv now st i (processIssue sv now st i)"
        unfolding passThrown_def using due stf ids(1)
        by (intro exI [of _ r] exI [of _ e] exI [of _ i2] exI [of _ "[]"]) simp
      then show ?thesis by simp
    next
      case (Inr st1)
      then have st1: "st1 = st\<lparr>store := (store st)\<lparr>issues := replaceById i2 (issues (store st))\<rparr>\<rparr>"
        by (simp add: saveIssue_def split: option.splits)
      let ?p = "(case saveIssue sv st1 i3 of
                   Inl e \<Rightarrow> (Inl e, st1)
                 | Inr st2 \<Rightarrow>
                     (case notifyAll sv st2 i3 (a # rest) a of
                        (Inl e, st3) \<Rightarrow> (Inl e, st3)
                      | (Inr x, st3) \<Rightarrow> (Inr (Some ?en), st3)))"
      have p: "processIssue sv now st i = ?p"
        using u unf Inr
        by (auto simp: processIssue_def split: sum.splits prod.splits)
      from save_then_notify [where sv=sv and st=st1 and doc=i3 and rs="a # rest" and a=a and en="?en"]
      show ?thesis
      proof
        assume d: "fst ?p = Inr (Some ?en)
          \<and> snd ?p = st1\<lparr>store := (store st1)\<lparr>issues := replaceById i3 (issues (store st1))\<rparr>,
                        outbox := outbox st1 @ noticesTo i3 (a # rest) a\<rparr>"
        have "replaceById i3 (replaceById i2 (issues (store st))) = replaceById i3 (issues (store st))"
          using ids by (simp add: replaceById_twice)
        with d st1 have "snd ?p = st\<lparr>store := (store st)\<lparr>issues := replaceById i3 (issues (store st))\<rparr>,
                        outbox := outbox st @ noticesTo i3 (a # rest) a\<rparr>"
          by simp
        with d due rc en ids have "passDone sv now st i ?p"
          unfolding passDone_def by (intro exI [of _ r] exI [of _ a]
            exI [of _ rest] exI [of _ i3]) simp
        then show ?thesis by (simp add: p)
      next
        assume "\<exists>e ns. fst ?p = Inl e
            \<and> (issueSaveError sv i3 = Some e \<or> (\<exists>u. assignmentNoticeError sv i3 u = Some e))
            \<and> users (store (snd ?p)) = users (store st1)
            \<and> outbox (snd ?p) = outbox st1 @ ns \<and> (\<forall>n \<in> set ns. aboutIssue n = iid i3)"
        then obtain e ns where t: "fst ?p = Inl e"
          "issueSaveError sv i3 = Some e \<or> (\<exists>u. assignmentNoticeError sv i3 u = Some e)"
          "users (store (snd ?p)) = users (store st1)"
          "outbox (snd ?p) = outbox st1 @ ns" "\<forall>n \<in> set ns. aboutIssue n = iid i3"
          by blast
        with st1 ids have "users (store (snd ?p)) = users (store st)"
          "outbox (snd ?p) = outbox st @ ns" "\<forall>n \<in> set ns. aboutIssue n = iid i"
          by simp_all
        with t(1,2) due stf ids(2) have "passThrown sv now st i ?p"
          unfolding passThrown_def
          by (intro exI [of _ r] exI [of _ e] exI [of _ i3] exI [of _ ns]) simp
        then show ?thesis by (simp add: p)
      qed
    qed
  qed
qed

lemma processIssue_pass:
  "passNothing now st i (processIssue sv now st i)
   \<or> passDone sv now st i (processIssue sv now st i)
   \<or> passThrown sv now st i (processIssue sv now st i)"
proof (cases "truthy_str (assignedRole i)")
  case True
  then show ?thesis by (rule pass_assigned)
next
  case False
  then show ?thesis
    using pass_unassigned_fieldStaff [of i now st sv] pass_unassigned_fastTrack [of i now st sv]
    by blast
qed

definition noticesAbout :: "nat \<Rightarrow> state \<Rightarrow> notice list" where
  "noticesAbout k st = filter (\<lambda>n. aboutIssue n = k) (outbox st)"

definition apart :: "nat \<Rightarrow> state \<Rightarrow> state \<Rightarrow> bool" where
  "apart k st st' = (untouched k st st' \<and> noticesAbout k st' = noticesAbout k st)"

lemma apart_refl: "apart k st st"
  by (simp add: apart_def untouched_refl)

lemma apart_trans: "apart k a b \<Longrightarrow> apart k b c \<Longrightarrow> apart k a c"
  unfolding apart_def using untouched_trans by auto

lemma filter_none: "\<forall>n \<in> set ns. aboutIssue n = j \<Longrightarrow> j \<noteq> k \<Longrightarrow> filter (\<lambda>n. aboutIssue n = k) ns = []"
  by (induction ns) auto

lemma filter_all: "\<forall>n \<in> set ns. aboutIssue n = k \<Longrightarrow> filter (\<lambda>n. aboutIssue n = k) ns = ns"
  by (induction ns) auto

lemma noticesTo_about: "\<forall>n \<in> set (noticesTo i us a). aboutIssue n = iid i"
  by (simp add: noticesTo_def)

lemma processIssue_apart:
  assumes "iid i \<noteq> k"
  shows "apart k st (snd (processIssue sv now st i))"
proof -
  have u: "untouched k st (snd (processIssue sv now st i))"
    using assms by (rule processIssue_untouched)
  have "noticesAbout k (snd (processIssue sv now st i)) = noticesAbout k st"
    using processIssue_pass [of now st i sv]
  proof (elim disjE)
    assume "passNothing now st i (processIssue sv now st i)"
    then show ?thesis by (simp add: passNothing_def)
  next
    assume "passDone sv now st i (processIssue sv now st i)"
    then obtain a rest i' where
      "outbox (snd (processIssue sv now st i)) = outbox st @ noticesTo i' (a # rest) a"
      "iid i' = iid i"
      unfolding passDone_def by auto
    with assms filter_none [OF noticesTo_about, of i' k "a # rest" a] show ?thesis
      by (simp add: noticesAbout_def)
  next
    assume "passThrown sv now st i (processIssue sv now st i)"
    then obtain ns where "outbox (snd (processIssue sv now st i)) = outbox st @ ns"
      "\<forall>n \<in> set ns. aboutIssue n = iid i"
      unfolding passThrown_def by auto
    with assms filter_none [of ns "iid i" k] show ?thesis by (simp add: noticesAbout_def)
  qed
  with u show ?thesis by (simp add: apart_def)
qed

lemma sweepLoop_apart:
  "\<forall>j \<in> set xs. iid j \<noteq> k \<Longrightarrow> apart k st (snd (sweepLoop sv now xs (acc, st)))"
proof (induction xs arbitrary: acc st)
  case Nil
  then show ?case by (simp add: apart_refl)
next
  case (Cons j rest)
  from Cons.prems have "iid j \<noteq> k" by simp
  then have u: "apart k st (snd (processIssue sv now st j))" by (rule processIssue_apart)
  from Cons.prems have "\<forall>j \<in> set rest. iid j \<noteq> k" by simp
  from Cons.IH [OF this]
  have "apart k (snd (processIssue sv now st j))
          (snd (sweepLoop sv now rest (acc @ entriesOf j (fst (processIssue sv now st j)),
                 snd (processIssue sv now st j))))" .
  with u show ?case unfolding sweepLoop_step by (rule apart_trans)
qed

lemma sweepTrace_in: "(i, out) \<in> set (sweepTrace sv now xs st) \<Longrightarrow> i \<in> set xs"
  using sweepTrace_issues [of sv now xs st] by (metis fst_conv image_eqI set_map)

text \<open>
  With unique ids, the pass of an issue starts from a state that still holds the
  issue as it was before the sweep, and nothing after the pass touches the issue.
\<close>

lemma sweepTrace_member:
  assumes "distinct (map iid xs)" "(i, out) \<in> set (sweepTrace sv now xs st)"
  shows "\<exists>pre. apart (iid i) st pre \<and> out = fst (processIssue sv now pre i)
            \<and> apart (iid i) (snd (processIssue sv now pre i))
                 (snd (sweepLoop sv now xs (acc, st)))"
  using assms
proof (induction xs arbitrary: acc st)
  case Nil
  then show ?case by simp
next
  case (Cons j rest)
  from Cons.prems(1) have nj: "iid j \<notin> iid ` set rest" and d: "distinct (map iid rest)" by simp_all
  let ?st1 = "snd (processIssue sv now st j)"
  let ?acc1 = "acc @ entriesOf j (fst (processIssue sv now st j))"
  from Cons.prems(2) have "(i, out) = (j, fst (processIssue sv now st j))
      \<or> (i, out) \<in> set (sweepTrace sv now rest ?st1)" by simp
  then show ?case
  proof
    assume h: "(i, out) = (j, fst (processIssue sv now st j))"
    from nj have "\<forall>x \<in> set rest. iid x \<noteq> iid j" by (metis imageI)
    then have "apart (iid j) ?st1 (snd (sweepLoop sv now rest (?acc1, ?st1)))"
      by (rule sweepLoop_apart)
    with h show ?thesis
      unfolding sweepLoop_step by (intro exI [of _ st]) (simp add: apart_refl)
  next
    assume h: "(i, out) \<in> set (sweepTrace sv now rest ?st1)"
    then have "i \<in> set rest" by (rule sweepTrace_in)
    with nj have "iid j \<noteq> iid i" by (metis imageI)
    then have a: "apart (iid i) st ?st1" by (rule processIssue_apart)
    from Cons.IH [OF d h, of ?acc1] obtain pre where
      p: "apart (iid i) ?st1 pre" "out = fst (processIssue sv now pre i)"
        "apart (iid i) (snd (processIssue sv now pre i))
           (snd (sweepLoop sv now rest (?acc1, ?st1)))"
      by blast
    from a p(1) have "apart (iid i) st pre" by (rule apart_trans)
    with p(2,3) show ?thesis unfolding sweepLoop_step by blast
  qed
qed

lemma findById_distinct:
  "distinct (map iid xs) \<Longrightarrow> i \<in> set xs \<Longrightarrow> findById xs (iid i) = Some i"
proof (induction xs)
  case Nil
  then show ?case by simp
next
  case (Cons x xs)
  show ?case
  proof (cases "x = i")
    case True
    then show ?thesis by (simp add: findById_def)
  next
    case False
    with Cons.prems have m: "i \<in> set xs" by simp
    from Cons.prems(1) have "iid x \<notin> iid ` set xs" by simp
    with m have "iid x \<noteq> iid i" by (metis imageI)
    moreover from Cons.prems(1) have "distinct (map iid xs)" by simp
    ultimately show ?thesis using Cons.IH m by (simp add: findById_def)
  qed
qed

lemma recipientsOf_staffed: "recipientsOf us i r = a # rest \<Longrightarrow> staffed us r"
proof -
  assume "recipientsOf us i r = a # rest"
  then have "findAllUsersForRole us r (category i) \<noteq> []"
    by (auto simp: recipientsOf_def split: if_splits)
  then show ?thesis by (simp add: findAllUsersForRole_staffed)
qed

text \<open>
  What the outcome of a pass says about the issue once the sweep is over: the states
  compared are the one before the sweep and the one after it.
\<close>

definition fate ::
  "services \<Rightarrow> int \<Rightarrow> state \<Rightarrow> state \<Rightarrow> issue \<Rightarrow> (string + resultEntry option) \<Rightarrow> bool" where
  "fate sv now st final i out =
     ((out = Inr None \<longleftrightarrow> (\<forall>r. dueRole now i = Some r \<longrightarrow> \<not> staffed (users (store st)) r))
      \<and> (out = Inr None \<longrightarrow>
            findById (issues (store final)) (iid i) = Some i
            \<and> noticesAbout (iid i) final = noticesAbout (iid i) st)
      \<and> (\<forall>en. out = Inr (Some en) \<longrightarrow>
            (\<exists>r a rest i'.
               dueRole now i = Some r \<and> recipientsOf (users (store st)) i r = a # rest
               \<and> en = recordedSuccess i r
               \<and> findById (issues (store final)) (iid i) = Some i'
               \<and> assignedRole i' = Val r \<and> assignedTo i' = Val (uid a)
               \<and> noticesAbout (iid i) final
                   = noticesAbout (iid i) st @ noticesTo i' (a # rest) a))
      \<and> (\<forall>e. out = Inl e \<longrightarrow>
            (\<exists>doc. iid doc = iid i
               \<and> (issueSaveError sv doc = Some e
                   \<or> (\<exists>u. assignmentNoticeError sv doc u = Some e)))))"

lemma sweep_fate:
  assumes uniq: "distinct (map iid (issues (store st)))"
    and sel: "set xs \<subseteq> set (issues (store st))" "distinct (map iid xs)"
    and mem: "(i, out) \<in> set (sweepTrace sv now xs st)"
  shows "fate sv now st (snd (sweepLoop sv now xs ([], st))) i out"
proof -
  let ?final = "snd (sweepLoop sv now xs ([], st))"
  from sweepTrace_member [OF sel(2) mem, of "[]"] obtain pre where
    pre: "apart (iid i) st pre" and out: "out = fst (processIssue sv now pre i)"
    and post: "apart (iid i) (snd (processIssue sv now pre i)) ?final"
    by blast
  let ?p = "processIssue sv now pre i"
  from mem have "i \<in> set xs" by (rule sweepTrace_in)
  with sel(1) have "i \<in> set (issues (store st))" by auto
  with uniq have f0: "findById (issues (store st)) (iid i) = Some i" by (rule findById_distinct)
  from pre have us: "users (store pre) = users (store st)"
    and fp: "findById (issues (store pre)) (iid i) = Some i"
    and np: "noticesAbout (iid i) pre = noticesAbout (iid i) st"
    using f0 by (simp_all add: apart_def untouched_def)
  from post have ff: "findById (issues (store ?final)) (iid i)
                        = findById (issues (store (snd ?p))) (iid i)"
    and nf: "noticesAbout (iid i) ?final = noticesAbout (iid i) (snd ?p)"
    by (simp_all add: apart_def untouched_def)
  from processIssue_pass [of now pre i sv] show ?thesis
  proof (elim disjE)
    assume "passNothing now pre i ?p"
    then have "fst ?p = Inr None" "snd ?p = pre"
      "\<forall>r. dueRole now i = Some r \<longrightarrow> \<not> staffed (users (store st)) r"
      using us by (simp_all add: passNothing_def)
    with out ff nf fp np show ?thesis by (simp add: fate_def)
  next
    assume "passDone sv now pre i ?p"
    then obtain r a rest i' where d:
      "dueRole now i = Some r" "recipientsOf (users (store pre)) i r = a # rest"
      "fst ?p = Inr (Some (recordedSuccess i r))"
      "snd ?p = pre\<lparr>store := (store pre)\<lparr>issues := replaceById i' (issues (store pre))\<rparr>,
                      outbox := outbox pre @ noticesTo i' (a # rest) a\<rparr>"
      "iid i' = iid i" "assignedRole i' = Val r" "assignedTo i' = Val (uid a)"
      unfolding passDone_def by blast
    from d(2) us have rc: "recipientsOf (users (store st)) i r = a # rest" by simp
    then have stf: "staffed (users (store st)) r" by (rule recipientsOf_staffed)
    from d(4) d(5) fp have "findById (issues (store (snd ?p))) (iid i) = Some i'"
      by (simp add: findById_replace)
    with ff have a1: "findById (issues (store ?final)) (iid i) = Some i'" by simp
    from d(4) d(5) have "noticesAbout (iid i) (snd ?p)
        = noticesAbout (iid i) pre @ noticesTo i' (a # rest) a"
      using filter_all [OF noticesTo_about, of i' "a # rest" a]
      by (simp add: noticesAbout_def)
    with nf np have a2: "noticesAbout (iid i) ?final
        = noticesAbout (iid i) st @ noticesTo i' (a # rest) a" by simp
    have "\<exists>r a rest i'.
               dueRole now i = Some r \<and> recipientsOf (users (store st)) i r = a # rest
               \<and> recordedSuccess i r = recordedSuccess i r
               \<and> findById (issues (store ?final)) (iid i) = Some i'
               \<and> assignedRole i' = Val r \<and> assignedTo i' = Val (uid a)
               \<and> noticesAbout (iid i) ?final
                   = noticesAbout (iid i) st @ noticesTo i' (a # rest) a"
      using d(1) rc a1 d(6) d(7) a2 by blast
    with out d(1) d(3) stf show ?thesis by (auto simp: fate_def)
  next
    assume "passThrown sv now pre i ?p"
    then obtain r e doc where t:
      "dueRole now i = Some r" "staffed (users (store pre)) r" "fst ?p = Inl e" "iid doc = iid i"
      "issueSaveError sv doc = Some e \<or> (\<exists>u. assignmentNoticeError sv doc u = Some e)"
      unfolding passThrown_def by blast
    with out us show ?thesis by (auto simp: fate_def)
  qed
qed

text \<open>
  C6 (as amended). In a store with unique ids the sweep processes every selected
  issue, in order, whatever happened to the issues before it, and records at most
  one outcome for each. No entry is recorded exactly when no active user carries the
  role the issue is due for; the stored issue is then as it was before the sweep and
  no notice about it was sent. A success entry to the due role is recorded when the
  pass ran to its end: the issue is stored at the due role with the first recipient
  as assignee, and every recipient has a notice. A failure entry with the message is
  recorded when a save of the issue or a notice about it rejected; by then the issue
  may be stored at its new role already, and the remaining issues are still
  processed. The summary has checked = number of selected issues, escalated = number
  of success entries, failed = number of failure entries, hence escalated + failed =
  number of entries, which is at most checked.
\<close>

theorem sweep_outcomes:
  fixes sv now st
  defines "selected \<equiv> filter (overdueFilter now) (issues (store st))"
  defines "summary \<equiv> fst (checkAndEscalateIssues sv now st)"
  defines "final \<equiv> snd (checkAndEscalateIssues sv now st)"
  defines "trace \<equiv> sweepTrace sv now selected st"
  assumes uniq: "distinct (map iid (issues (store st)))"
  shows "checked summary = length selected
       \<and> map fst trace = selected
       \<and> results summary = traceEntries trace
       \<and> (\<forall>(i, out) \<in> set trace. fate sv now st final i out)
       \<and> (\<forall>i e. (i, Inl e) \<in> set trace \<longrightarrow> failureEntry i e \<in> set (results summary))
       \<and> (\<forall>r \<in> set (results summary).
            issueId r \<in> iid ` set selected \<and> (success r \<longleftrightarrow> error r = None))
       \<and> escalated summary = length (filter success (results summary))
       \<and> failed summary = length (filter (\<lambda>r. \<not> success r) (results summary))
       \<and> escalated summary + failed summary = length (results summary)
       \<and> escalated summary + failed summary \<le> checked summary"
proof -
  obtain res st1 where l: "sweepLoop sv now selected ([], st) = (res, st1)"
    by (cases "sweepLoop sv now selected ([], st)")
  then have res: "res = traceEntries trace"
    using sweepLoop_trace [of sv now selected "[]" st] by (simp add: trace_def)
  from l have s: "summary = \<lparr>checked = length selected,
            escalated = length (filter (\<lambda>r. success r) res),
            failed = length (filter (\<lambda>r. \<not> success r) res),
            results = res\<rparr>"
    by (simp add: summary_def checkAndEscalateIssues_def Let_def selected_def)
  from l have fin: "final = snd (sweepLoop sv now selected ([], st))"
    by (simp add: final_def checkAndEscalateIssues_def Let_def selected_def)
  have len: "length res \<le> length selected"
    using length_traceEntries [of trace] sweepTrace_issues [of sv now selected st]
    by (metis res trace_def length_map)
  have sum: "length (filter success res) + length (filter (\<lambda>r. \<not> success r) res) = length res"
    by (rule sum_length_filter_compl)
  have snd: "\<forall>r \<in> set res. issueId r \<in> iid ` set selected \<and> (success r \<longleftrightarrow> error r = None)"
    using traceEntries_sound [of _ sv now selected st] by (simp add: res trace_def)
  have fl: "\<forall>i e. (i, Inl e) \<in> set trace \<longrightarrow> failureEntry i e \<in> set res"
    by (simp add: res traceEntries_failure)
  have sub: "set selected \<subseteq> set (issues (store st))" by (auto simp: selected_def)
  have dis: "distinct (map iid selected)"
    unfolding selected_def using uniq by (rule distinct_map_filter)
  have ft: "\<forall>(i, out) \<in> set trace. fate sv now st final i out"
  proof (clarify)
    fix i out assume "(i, out) \<in> set trace"
    then have "(i, out) \<in> set (sweepTrace sv now selected st)" by (simp add: trace_def)
    from sweep_fate [OF uniq sub dis this] show "fate sv now st final i out" by (simp add: fin)
  qed
  from s res len sum snd fl ft show ?thesis
    by (simp add: trace_def sweepTrace_issues)
qed

section \<open>Concrete runs of the escalation service\<close>

text \<open>
  Issue 6 is an old report at the field-staff level without deadline or assignment
  time; issue 7 has reached the commissioner. User 9 is a commissioner for all
  departments. The services of the runs never reject and give every level five
  minutes; \<open>failingSave\<close> rejects the save of issue 6.
\<close>

definition legacy6 :: issue where
  "legacy6 = report1\<lparr>iid := 6, assignedRole := Val ''field-staff''\<rparr>"

definition top7 :: issue where
  "top7 = report3\<lparr>iid := 7, assignedRole := Val ''commissioner''\<rparr>"

definition boss9 :: user where
  "boss9 = staff7\<lparr>uid := 9, role := ''commissioner'', departments := [''All'']\<rparr>"

definition services0 :: services where
  "services0 =
     \<lparr>calculateEscalationDeadline = (\<lambda>p r now. now + 5 * 60 * 1000),
      issueSaveError = (\<lambda>i. None),
      assignmentNoticeError = (\<lambda>i u. None)\<rparr>"

definition failingSave :: services where
  "failingSave = services0\<lparr>issueSaveError := (\<lambda>i. if iid i = 6 then Some ''disk full'' else None)\<rparr>"

definition state0 :: state where
  "state0 = \<lparr>store = store0, outbox = []\<rparr>"

definition noCommissioner :: state where
  "noCommissioner =
     \<lparr>store = \<lparr>issues = [legacy6, report1], users = [citizen3, staff7, staff8]\<rparr>, outbox = []\<rparr>"

definition withCommissioner :: state where
  "withCommissioner =
     \<lparr>store = \<lparr>issues = [legacy6, report1], users = [citizen3, staff7, staff8, boss9]\<rparr>,
      outbox = []\<rparr>"

text \<open>
  C4, the claim as stated: issue 6 is at the field-staff level, has neither
  escalationDeadline nor assignedAt and is exactly five minutes old. The query
  selects it through its third clause, since a filter on null also matches an absent
  field and the age test is not strict; none of the four conditions of the claim
  holds.
\<close>

theorem overdueFilter_counterexample:
  "overdueFilter 300000 legacy6 \<and> \<not> claimedSelection 300000 legacy6"
  by (simp add: overdueFilter_def claimedSelection_def legacy6_def report1_def q_in_def q_ne_def
      q_eq_def q_lte_def q_exists_def q_null_def graceMillis_def staffOrSupervisor_def truthy_def
      ageExceedsGrace_def)

text \<open>A run of C4: issue 6 is selected; at the commissioner level it would not be.\<close>

theorem overdueFilter_selection_witness:
  "overdueFilter 300000 legacy6 \<and> \<not> overdueFilter 300000 (legacy6\<lparr>assignedRole := Val ''commissioner''\<rparr>)"
proof -
  have "querySelection 300000 legacy6"
    by (simp add: querySelection_def legacy6_def report1_def staffOrSupervisor_def q_null_def
        createdBefore_def graceMillis_def)
  with overdueFilter_selection [of 300000 legacy6] have a: "overdueFilter 300000 legacy6" by simp
  have "assignedRole (legacy6\<lparr>assignedRole := Val ''commissioner''\<rparr>) = Val ''commissioner''"
    by simp
  with overdueFilter_selection [of 300000 "legacy6\<lparr>assignedRole := Val ''commissioner''\<rparr>"]
  have b: "\<not> overdueFilter 300000 (legacy6\<lparr>assignedRole := Val ''commissioner''\<rparr>)" by blast
  from a b show ?thesis by simp
qed

lemmas sweep_ex_defs = legacy6_def top7_def boss9_def services0_def failingSave_def state0_def
  noCommissioner_def withCommissioner_def
lemmas sweep_run_defs = checkAndEscalateIssues_def overdueFilter_def processIssue_def
  escalateIssue_def assignToFieldStaff_def saveIssue_def notifyAll_def issue_escalate_def
  issue_assign_def fastTracked_def targetRoleOf_def hoursOld_def nextRoleOf_def
  successEntry_def failureEntry_def graceMillis_def
  findAllUsersForRole_def findUserForRole_def findUsers_def findOneUser_def sortUsers_def
  userBefore_def loginNotBefore_def departmentIn_def departmentIs_def
  q_in_def q_ne_def q_eq_def q_lte_def q_exists_def q_null_def truthy_def truthy_str_def
  or_else_def replaceById_def List.map_filter_simps Let_def

text \<open>A run of C5 on issue 7.\<close>

theorem escalateIssue_commissioner_witness:
  "escalateIssue services0 700000 state0 top7 = (Inr None, state0, top7)"
proof -
  have "assignedRole top7 = Val ''commissioner''" by (simp add: top7_def)
  then show ?thesis by (rule escalateIssue_commissioner)
qed

text \<open>
  C6, the claim as stated: without a supervisor and without a commissioner in the
  directory both selected issues are left as they are and no entry is recorded for
  either, so checked = 2 while escalated + failed = 0.
\<close>

theorem sweep_outcomes_counterexample:
  "overdueFilter 700000 legacy6 \<and> overdueFilter 700000 report1
   \<and> fst (checkAndEscalateIssues services0 700000 noCommissioner) =
       \<lparr>checked = 2, escalated = 0, failed = 0, results = []\<rparr>"
  by (simp add: sweep_run_defs sweep_ex_defs ex_defs)

text \<open>
  C7, the claim as stated: issue 1 has no assignedRole, priority high and is older
  than ten minutes. Without a commissioner in the directory the sweep leaves the
  store as it was and records nothing. With commissioner 9 the issue is moved to the
  commissioner level, and the escalationHistory of the stored issue is still empty:
  the fast track sets the fields itself and does not go through \<open>issue.escalate\<close>.
\<close>

theorem sweep_fast_track_counterexample:
  "assignedRole report1 = Missing \<and> priority report1 = Val ''high''
   \<and> createdAt report1 = Val 0 \<and> overdueFilter 700000 report1
   \<and> checkAndEscalateIssues services0 700000 noCommissioner =
       (\<lparr>checked = 2, escalated = 0, failed = 0, results = []\<rparr>, noCommissioner)
   \<and> map assignedRole
        (issues (store (snd (checkAndEscalateIssues services0 700000 withCommissioner))))
       = [Val ''field-staff'', Val ''commissioner'']
   \<and> map escalationHistory
        (issues (store (snd (checkAndEscalateIssues services0 700000 withCommissioner)))) = [[], []]"
  by (simp add: sweep_run_defs sweep_ex_defs ex_defs)


text \<open>User 10 is a supervisor for roads.\<close>

definition sup10 :: user where
  "sup10 = staff7\<lparr>uid := 10, role := ''supervisor''\<rparr>"

definition fullStaff :: state where
  "fullStaff =
     \<lparr>store = \<lparr>issues = [legacy6, report1], users = [citizen3, staff7, staff8, boss9, sup10]\<rparr>,
      outbox = []\<rparr>"

lemmas pass_defs = dueRole_def recipientsOf_def recordedSuccess_def noticesTo_def noticesAbout_def

text \<open>
  Runs of C6. With every level staffed, the save of issue 6 rejects, which is
  recorded as its failure, and issue 1 is still processed and stored at the
  commissioner level. Without a commissioner nothing is recorded for issue 1 and the
  stored issue is as before.
\<close>

theorem sweep_outcomes_witness:
  "failureEntry legacy6 ''disk full''
     \<in> set (results (fst (checkAndEscalateIssues failingSave 700000 fullStaff)))
   \<and> checked (fst (checkAndEscalateIssues failingSave 700000 fullStaff)) = 2
   \<and> escalated (fst (checkAndEscalateIssues failingSave 700000 fullStaff))
       + failed (fst (checkAndEscalateIssues failingSave 700000 fullStaff)) \<le> 2
   \<and> (\<exists>i'. findById (issues (store (snd (checkAndEscalateIssues failingSave 700000 fullStaff))))
              (iid report1) = Some i'
          \<and> assignedRole i' = Val ''commissioner'')
   \<and> findById (issues (store (snd (checkAndEscalateIssues services0 700000 noCommissioner))))
        (iid report1) = Some report1"
proof -
  have uniq: "distinct (map iid (issues (store fullStaff)))"
    by (simp add: fullStaff_def sweep_ex_defs ex_defs)
  have sel: "filter (overdueFilter 700000) (issues (store fullStaff)) = [legacy6, report1]"
    by (simp add: sweep_run_defs sweep_ex_defs ex_defs fullStaff_def)
  have thrown: "fst (processIssue failingSave 700000 fullStaff legacy6) = Inl ''disk full''"
    by (simp add: sweep_run_defs sweep_ex_defs ex_defs fullStaff_def sup10_def)
  have same: "snd (processIssue failingSave 700000 fullStaff legacy6) = fullStaff"
    by (simp add: sweep_run_defs sweep_ex_defs ex_defs fullStaff_def sup10_def)
  have succ: "fst (processIssue failingSave 700000 fullStaff report1)
                = Inr (Some (recordedSuccess report1 ''commissioner''))"
    by (simp add: sweep_run_defs sweep_ex_defs ex_defs fullStaff_def sup10_def pass_defs)
  have due: "dueRole 700000 report1 = Some ''commissioner''"
    by (simp add: dueRole_def sweep_run_defs ex_defs)
  from thrown have t1: "(legacy6, Inl ''disk full'')
      \<in> set (sweepTrace failingSave 700000 [legacy6, report1] fullStaff)"
    by simp
  from succ same have t2: "(report1, Inr (Some (recordedSuccess report1 ''commissioner'')))
      \<in> set (sweepTrace failingSave 700000 [legacy6, report1] fullStaff)"
    by simp
  note outcome = sweep_outcomes [OF uniq, of failingSave 700000, unfolded sel]
  from outcome have c: "checked (fst (checkAndEscalateIssues failingSave 700000 fullStaff)) = 2"
    by simp
  from outcome have "\<forall>i e. (i, Inl e) \<in> set (sweepTrace failingSave 700000 [legacy6, report1] fullStaff)
      \<longrightarrow> failureEntry i e \<in> set (results (fst (checkAndEscalateIssues failingSave 700000 fullStaff)))"
    by blast
  with t1 have f: "failureEntry legacy6 ''disk full''
     \<in> set (results (fst (checkAndEscalateIssues failingSave 700000 fullStaff)))"
    by blast
  from outcome have le: "escalated (fst (checkAndEscalateIssues failingSave 700000 fullStaff))
       + failed (fst (checkAndEscalateIssues failingSave 700000 fullStaff))
       \<le> checked (fst (checkAndEscalateIssues failingSave 700000 fullStaff))"
    by blast
  note outcome [THEN conjunct2, THEN conjunct2, THEN conjunct2, THEN conjunct1]
  with t2 have "fate failingSave 700000 fullStaff
      (snd (checkAndEscalateIssues failingSave 700000 fullStaff)) report1
      (Inr (Some (recordedSuccess report1 ''commissioner'')))"
    by blast
  with due have g: "\<exists>i'. findById (issues (store (snd (checkAndEscalateIssues failingSave 700000 fullStaff))))
              (iid report1) = Some i' \<and> assignedRole i' = Val ''commissioner''"
    unfolding fate_def by auto
  have uniq2: "distinct (map iid (issues (store noCommissioner)))"
    by (simp add: sweep_ex_defs ex_defs)
  have sel2: "filter (overdueFilter 700000) (issues (store noCommissioner)) = [legacy6, report1]"
    by (simp add: sweep_run_defs sweep_ex_defs ex_defs)
  have n1: "snd (processIssue services0 700000 noCommissioner legacy6) = noCommissioner"
    by (simp add: sweep_run_defs sweep_ex_defs ex_defs)
  have n2: "fst (processIssue services0 700000 noCommissioner report1) = Inr None"
    by (simp add: sweep_run_defs sweep_ex_defs ex_defs)
  from n1 n2 have t3: "(report1, Inr None)
      \<in> set (sweepTrace services0 700000 [legacy6, report1] noCommissioner)"
    by simp
  note idle = sweep_outcomes [OF uniq2, of services0 700000, unfolded sel2]
  note idle [THEN conjunct2, THEN conjunct2, THEN conjunct2, THEN conjunct1]
  with t3 have "fate services0 700000 noCommissioner
        (snd (checkAndEscalateIssues services0 700000 noCommissioner)) report1 (Inr None)"
    by blast
  then have h: "findById (issues (store (snd (checkAndEscalateIssues services0 700000 noCommissioner))))
        (iid report1) = Some report1"
    unfolding fate_def by simp
  from c f le g h show ?thesis by simp
qed

text \<open>A run of C7 on issue 1 with commissioner 9.\<close>

theorem sweep_fast_track_witness:
  "\<exists>i'. findById (issues (store (snd (checkAndEscalateIssues services0 700000 withCommissioner))))
           (iid report1) = Some i'
        \<and> assignedRole i' = Val ''commissioner''
        \<and> status i' = ''escalated''
        \<and> assignedTo i' = Val (uid boss9) \<and> assignedBy i' = Val (uid boss9)
        \<and> assignedAt i' = Val 700000
        \<and> (truthy_str (priority report1) \<longrightarrow>
             escalationDeadline i'
               = Val (calculateEscalationDeadline services0 (priority report1) ''commissioner'' 700000))
        \<and> \<lparr>issueId = iid report1, entryTitle = title report1, entryFromRole = Val ''unassigned'',
             entryToRole = Val ''commissioner'', success = True, error = None\<rparr>
             \<in> set (results (fst (checkAndEscalateIssues services0 700000 withCommissioner)))"
proof -
  have uniq: "distinct (map iid (issues (store withCommissioner)))"
    by (simp add: sweep_ex_defs ex_defs)
  have mem: "report1 \<in> set (issues (store withCommissioner))" by (simp add: sweep_ex_defs)
  have unset: "assignedRole report1 = Missing" by (simp add: ex_defs)
  have rep: "status report1 = ''reported''" by (simp add: ex_defs)
  have born: "createdAt report1 = Val 0" by (simp add: ex_defs)
  have old: "(700000::int) - 0 \<ge> 10 * 60 * 1000" by simp
  have staff: "findAllUsersForRole (users (store withCommissioner)) ''commissioner''
                 (category report1) = boss9 # []"
    by (simp add: sweep_run_defs sweep_ex_defs ex_defs)
  have saves: "issueSaveError services0 (fastTracked services0 700000 ''commissioner'' boss9 report1)
                 = None"
    by (simp add: services0_def)
  have notices: "\<forall>u \<in> set (boss9 # []).
      assignmentNoticeError services0 (fastTracked services0 700000 ''commissioner'' boss9 report1) u
        = None"
    by (simp add: services0_def)
  show ?thesis
    by (rule sweep_fast_track [OF uniq mem unset rep born old staff saves notices])
qed

text \<open>
  A history for C3. Issue 11 is routed to the field-staff level with a deadline.
  Staff member 8 accepts it, the deadline passes and the sweep escalates it to the
  supervisor level; staff member 8 then calls resolve twice.
\<close>

definition routed11 :: issue where
  "routed11 =
     report1\<lparr>iid := 11, status := ''assigned'', assignedRole := Val ''field-staff'',
       assignedBy := Val 7, assignedAt := Val 0, escalationDeadline := Val 300000\<rparr>"

definition scenario0 :: state where
  "scenario0 =
     \<lparr>store = \<lparr>issues = [routed11], users = [citizen3, staff7, staff8, boss9, sup10]\<rparr>,
      outbox = []\<rparr>"

definition afterAccept :: db where
  "afterAccept = snd (acceptIssue (store scenario0) 11 staff8 100000)"

definition afterSweep :: db where
  "afterSweep =
     store (snd (checkAndEscalateIssues services0 400000 \<lparr>store = afterAccept, outbox = []\<rparr>))"

definition afterFirstResolve :: db where
  "afterFirstResolve = snd (resolveIssue world0 afterSweep 11 staff8 noLocation 500000)"

definition afterSecondResolve :: db where
  "afterSecondResolve = snd (resolveIssue world0 afterFirstResolve 11 staff8 noLocation 600000)"

lemma afterAccept_eq:
  "afterAccept = \<lparr>issues = [routed11\<lparr>status := ''in-progress'', acceptedBy := Val 8,
       acceptedAt := Val 100000, assignedTo := Val 8\<rparr>],
     users = [citizen3, staff7, staff8, boss9, sup10]\<rparr>"
  by (simp add: afterAccept_def scenario0_def acceptIssue_def employeeRoles_def findById_def
      accept_filter_def accept_set_def q_in_def q_null_def q_eq_def or_else_def truthy_def
      routed11_def ex_defs Let_def)

lemma afterSweep_eq:
  "afterSweep = \<lparr>issues = [routed11\<lparr>status := ''escalated'', acceptedBy := Val 8,
       acceptedAt := Val 100000, assignedTo := Val 10, assignedBy := Val 10,
       assignedRole := Val ''supervisor'', escalationDeadline := Val 700000,
       escalationHistory := [\<lparr>fromRole = Val ''field-staff'', toRole = ''supervisor'',
          escalatedBy = 10, reason = ''Auto-escalated: Time limit exceeded'',
          escalatedAt = 400000\<rparr>]\<rparr>],
     users = [citizen3, staff7, staff8, boss9, sup10]\<rparr>"
  unfolding afterSweep_def afterAccept_eq
  by (simp add: sweep_run_defs sweep_ex_defs sup10_def routed11_def ex_defs)

text \<open>
  C3. The bonus of the reporting citizen is meant to be granted at most once per
  issue. The points are added and the reporter is saved before the status is
  checked, and the pointsAwarded flag is set on the document in memory only, which
  is saved on a successful resolution alone. On issue 11, accepted and then
  escalated, every resolve call of the acceptor fails with "must be in-progress"
  and still adds 10 points to the reporter: 0 before, 10 after the first call, 20
  after the second, the stored flag staying false and the issue unresolved.
\<close>

theorem resolveIssue_points_repeat:
  "fst (resolveIssue world0 afterSweep 11 staff8 noLocation 500000)
     = Inl (NotInProgress ''escalated'')
   \<and> fst (resolveIssue world0 afterFirstResolve 11 staff8 noLocation 600000)
     = Inl (NotInProgress ''escalated'')
   \<and> map points (users afterSweep) = [Val 0, Missing, Missing, Missing, Missing]
   \<and> map points (users afterFirstResolve) = [Val 10, Missing, Missing, Missing, Missing]
   \<and> map points (users afterSecondResolve) = [Val 20, Missing, Missing, Missing, Missing]
   \<and> map pointsAwarded (issues afterSecondResolve) = [False]
   \<and> map status (issues afterSecondResolve) = [''escalated'']"
proof -
  have one: "resolveIssue world0 afterSweep 11 staff8 noLocation 500000 =
      (Inl (NotInProgress ''escalated''),
       afterSweep\<lparr>users := [citizen3\<lparr>points := Val 10\<rparr>, staff7, staff8, boss9, sup10]\<rparr>)"
    unfolding afterSweep_eq
    by (simp add: run_defs sweep_ex_defs sup10_def routed11_def ex_defs)
  then have f: "afterFirstResolve =
       afterSweep\<lparr>users := [citizen3\<lparr>points := Val 10\<rparr>, staff7, staff8, boss9, sup10]\<rparr>"
    by (simp add: afterFirstResolve_def)
  have two: "resolveIssue world0 afterFirstResolve 11 staff8 noLocation 600000 =
      (Inl (NotInProgress ''escalated''),
       afterSweep\<lparr>users := [citizen3\<lparr>points := Val 20\<rparr>, staff7, staff8, boss9, sup10]\<rparr>)"
    unfolding f afterSweep_eq
    by (simp add: run_defs sweep_ex_defs sup10_def routed11_def ex_defs)
  then have s: "afterSecondResolve =
       afterSweep\<lparr>users := [citizen3\<lparr>points := Val 20\<rparr>, staff7, staff8, boss9, sup10]\<rparr>"
    by (simp add: afterSecondResolve_def)
  have c1: "fst (resolveIssue world0 afterSweep 11 staff8 noLocation 500000)
     = Inl (NotInProgress ''escalated'')"
    by (simp add: one)
  have c2: "fst (resolveIssue world0 afterFirstResolve 11 staff8 noLocation 600000)
     = Inl (NotInProgress ''escalated'')"
    by (simp add: two)
  have c3: "map points (users afterSweep) = [Val 0, Missing, Missing, Missing, Missing]"
    by (simp add: afterSweep_eq sweep_ex_defs sup10_def ex_defs)
  have c4: "map points (users afterFirstResolve) = [Val 10, Missing, Missing, Missing, Missing]"
    by (simp add: f sweep_ex_defs sup10_def ex_defs)
  have c5: "map points (users afterSecondResolve) = [Val 20, Missing, Missing, Missing, Missing]"
    by (simp add: s sweep_ex_defs sup10_def ex_defs)
  have c6: "map pointsAwarded (issues afterSecondResolve) = [False]"
    by (simp add: s afterSweep_eq routed11_def ex_defs)
  have c7: "map status (issues afterSecondResolve) = [''escalated'']"
    by (simp add: s afterSweep_eq)
  from c1 c2 c3 c4 c5 c6 c7 show ?thesis by simp
qed

text \<open>A run of C9 on the users of the example store.\<close>

theorem directory_lookup_witness:
  "findAllUsersForRole (users store0) ''field-staff'' ''Roads'' = [staff8, staff7]
   \<and> findUserForRole (users store0) ''field-staff'' ''Roads'' = Some staff8
   \<and> findAllUsersForRole (users store0) ''supervisor'' ''Roads'' = []"
proof -
  have e: "eligibleStaff (users store0) ''field-staff'' ''Roads'' = [staff8, staff7]"
    by (simp add: eligibleStaff_def tier1_def tier2_def tier3_def departmentSet_def sortUsers_def
        userBefore_def loginNotBefore_def ex_defs)
  have n: "\<not> (\<exists>u \<in> set (users store0). isActive u \<and> role u = ''supervisor'')"
    by (simp add: ex_defs)
  from directory_lookup [of "users store0" "''field-staff''" "''Roads''"] e
  have a: "findAllUsersForRole (users store0) ''field-staff'' ''Roads'' = [staff8, staff7]"
    and b: "findUserForRole (users store0) ''field-staff'' ''Roads'' = Some staff8"
    by simp_all
  from directory_lookup [of "users store0" "''supervisor''" "''Roads''"] n
  have c: "findAllUsersForRole (users store0) ''supervisor'' ''Roads'' = []" by blast
  from a b c show ?thesis by simp
qed

end
